theory Spec2Isabelle
  imports Main
begin

section \<open>Scope\<close>

text \<open>
  A model of the renewal decision logic of \<open>letsencrypt/main.py\<close>: the staging guard,
  duplicate detection, action resolution, obtaining and reporting, account resolution.
  Collaborators outside that file (display, reporter, protocol client, lineage storage,
  account storage) appear through the calls made on them, recorded in order, and through
  the answers they give, which are inputs. Exceptions are values: a function that can
  raise returns \<open>Inl\<close> of the exception. Calls on the logger are left out. The
  certificate file of a lineage is taken to load, and the renewal parameters of a lineage
  to hold its server.
\<close>

section \<open>Strings as the source uses them\<close>

text \<open>
  The source is Python 2: a \<open>str\<close> is a byte string, modelled as \<open>string\<close>.
  \<open>startswith\<close> and \<open>contains\<close> give the case-sensitive substring test
  \<open>needle in hay\<close>; \<open>str_lower\<close> is \<open>str.lower()\<close> on bytes (only A-Z change);
  \<open>str_join\<close> is \<open>sep.join(xs)\<close>.
\<close>

fun startswith :: "string \<Rightarrow> string \<Rightarrow> bool" where
  "startswith hay [] = True"
| "startswith [] (n # ns) = False"
| "startswith (h # hs) (n # ns) = (h = n \<and> startswith hs ns)"

fun contains :: "string \<Rightarrow> string \<Rightarrow> bool" where
  "contains [] needle = (needle = [])"
| "contains (h # hs) needle = (startswith (h # hs) needle \<or> contains hs needle)"

definition lower_char :: "char \<Rightarrow> char" where
  "lower_char c =
     (let n = (of_char c :: nat) in if 65 \<le> n \<and> n \<le> 90 then char_of (n + 32) else c)"

definition str_lower :: "string \<Rightarrow> string" where
  "str_lower s = map lower_char s"

fun str_join :: "string \<Rightarrow> string list \<Rightarrow> string" where
  "str_join sep [] = []"
| "str_join sep [x] = x"
| "str_join sep (x # y # ys) = x @ sep @ str_join sep (y # ys)"

section \<open>Exceptions\<close>

text \<open>
  Every exception the modelled functions raise or let through. \<open>Error\<close> is
  \<open>errors.Error\<close> itself, \<open>MissingCommandlineFlag\<close> and \<open>SubError\<close> are its
  subclasses (the latter any other subclass, with its class name), \<open>Foreign\<close> is an
  exception of any class outside that hierarchy raised by a collaborator (for example
  \<open>acme.messages.Error\<close> or \<open>IOError\<close>), with class name and message.
\<close>

datatype exn =
    Error string
  | MissingCommandlineFlag string
  | SubError string string
  | Foreign string string
  | UnboundLocalError string
  | AssertionError string
  | AttributeError string
  | TypeError string

text \<open>\<open>isinstance(e, errors.Error)\<close>, what \<open>except errors.Error\<close> catches.\<close>

fun is_errors_Error :: "exn \<Rightarrow> bool" where
  "is_errors_Error (Error m) = True"
| "is_errors_Error (MissingCommandlineFlag m) = True"
| "is_errors_Error (SubError c m) = True"
| "is_errors_Error e = False"

section \<open>Configuration and lineages\<close>

record config =
  server :: string
  break_my_certs :: bool
  dry_run :: bool
  verb :: string
  duplicate :: bool
  expand :: bool
  renew_by_default :: bool
  reinstall :: bool
  account :: "string option"
  email :: "string option"
  register_unsafely_without_email :: bool
  tos :: bool

datatype kind = Cert | Privkey | Chain | Fullchain

text \<open>
  A \<open>storage.RenewableCert\<close> as \<open>main.py\<close> reads it: \<open>filename\<close> is
  \<open>configfile.filename\<close>, \<open>names\<close> what \<open>names()\<close> returns, \<open>cert\<close> and
  \<open>fullchain\<close> the stable paths, \<open>original_server\<close> the value of
  \<open>configuration["renewalparams"]["server"]\<close>, \<open>issuer_repr\<close> the text
  \<open>repr(load_certificate(open(cert).read()).get_issuer())\<close> of the certificate at
  \<open>cert\<close>. \<open>archive\<close> lists the numbered artifact files present (kind, version
  number, bytes) and \<open>links\<close> the version each stable path points at.
\<close>

record lineage =
  filename :: string
  names :: "string list"
  cert :: string
  fullchain :: "string option"
  original_server :: string
  issuer_repr :: string
  archive :: "(kind \<times> nat \<times> string) list"
  links :: "(kind \<times> nat) list"

section \<open>The staging safety guard\<close>

text \<open>
  \<open>_is_staging\<close>, nested in \<open>_avoid_invalidating_lineage\<close>. The constant
  \<open>constants.STAGING_URI\<close> is declared outside \<open>main.py\<close> and is a parameter.
\<close>

definition is_staging :: "string \<Rightarrow> string \<Rightarrow> bool" where
  "is_staging STAGING_URI srv \<longleftrightarrow> srv = STAGING_URI \<or> contains srv ''staging''"

definition now_valid :: "lineage \<Rightarrow> bool" where
  "now_valid l \<longleftrightarrow> \<not> contains (str_lower (issuer_repr l)) ''fake''"

definition invalidating_msg :: "lineage \<Rightarrow> string" where
  "invalidating_msg l =
     ''You've asked to renew/replace a seemingly valid certificate with '' @
     ''a test certificate (domains: '' @ str_join '', '' (names l) @
     ''). We will not do that unless you use the --break-my-certs flag!''"

definition avoid_invalidating_lineage ::
    "string \<Rightarrow> config \<Rightarrow> lineage \<Rightarrow> string \<Rightarrow> exn + unit" where
  "avoid_invalidating_lineage STAGING_URI cfg l orig =
     (if is_staging STAGING_URI (server cfg) then
        if \<not> is_staging STAGING_URI orig \<or> now_valid l then
          if \<not> break_my_certs cfg then Inl (Error (invalidating_msg l))
          else Inr ()
        else Inr ()
      else Inr ())"

text \<open>
  The rule as the specification words it, for comparison with \<open>is_staging\<close>: equal to the
  staging constant, or containing "staging" in any mix of upper and lower case.
\<close>

definition spec_is_staging :: "string \<Rightarrow> string \<Rightarrow> bool" where
  "spec_is_staging STAGING_URI srv \<longleftrightarrow>
     srv = STAGING_URI \<or> contains (str_lower srv) ''staging''"

section \<open>Collaborators\<close>

datatype priority = HIGH_PRIORITY | MEDIUM_PRIORITY | LOW_PRIORITY

datatype code = OK | CANCEL | HELP

text \<open>What \<open>le_client.obtain_and_enroll_certificate\<close> hands back: a lineage, \<open>False\<close> or \<open>None\<close>.\<close>

datatype enrolled = Enrolled lineage | EnrolledFalse | EnrolledNone

record acct =
  acct_id :: string

type_synonym acme = string

text \<open>
  The calls \<open>main.py\<close> makes on its collaborators, in the order made: the display
  (\<open>menu\<close>, \<open>yesno\<close>), the reporter (\<open>add_message\<close>), the protocol client
  (\<open>obtain_certificate\<close>, \<open>obtain_and_enroll_certificate\<close>) and the lineage
  (\<open>save_successor\<close> with prior version, certificate, key, chain and configuration;
  \<open>update_all_links_to\<close>).
\<close>

datatype event =
    Menu string "string list" string string int
  | YesNo string string string string
  | AddMessage string priority
  | ObtainCertificate "string list"
  | ObtainAndEnrollCertificate "string list"
  | SaveSuccessor nat string string string config
  | UpdateAllLinksTo nat

text \<open>
  What the collaborators answer, and the module constants declared outside \<open>main.py\<close>.
  \<open>renewal_conf_files\<close> pairs each renewal file with what \<open>storage.RenewableCert\<close>
  makes of it (\<open>None\<close> where it raises \<open>CertStorageError\<close> or \<open>IOError\<close>);
  \<open>make_or_verify_dir\<close> is the outcome of checking the renewal directory;
  \<open>obtain_certificate\<close> gives the PEM texts of the new certificate, chain and key;
  \<open>notAfter\<close> gives the text of \<open>crypto_util.notAfter(path).date()\<close>.
\<close>

record env =
  STAGING_URI :: string
  linesep :: string
  argv :: "string list"
  should_renew :: "config \<Rightarrow> lineage \<Rightarrow> bool"
  menu :: "string \<Rightarrow> string list \<Rightarrow> exn + (code \<times> int)"
  yesno :: "string \<Rightarrow> exn + bool"
  make_or_verify_dir :: "exn + unit"
  renewal_conf_files :: "(string \<times> lineage option) list"
  obtain_certificate :: "string list \<Rightarrow> exn + (string \<times> string \<times> string)"
  obtain_and_enroll_certificate :: "string list \<Rightarrow> exn + enrolled"
  notAfter :: "string \<Rightarrow> exn + string"
  load :: "string \<Rightarrow> exn + acct"
  find_all :: "acct list"
  choose_account :: "acct list \<Rightarrow> acct option"
  get_email :: "exn + string"
  register :: "config \<Rightarrow> (string \<Rightarrow> exn + bool) \<Rightarrow> exn + (acct \<times> acme)"

section \<open>The lineage store\<close>

text \<open>
  Modelled from the spec: \<open>storage.RenewableCert.available_versions\<close> is not in
  \<open>main.py\<close>. The ordered version numbers of one artifact kind.
\<close>

definition available_versions :: "lineage \<Rightarrow> kind \<Rightarrow> nat list" where
  "available_versions l k = map (\<lambda>e. fst (snd e)) (filter (\<lambda>e. fst e = k) (archive l))"

text \<open>
  Modelled from the spec: \<open>storage.RenewableCert.latest_common_version\<close> is not in
  \<open>main.py\<close>. The highest version number present across all four artifact kinds; the
  spec gives no value when the kinds share no version, and the model raises there.
\<close>

definition latest_common_version :: "lineage \<Rightarrow> exn + nat" where
  "latest_common_version l =
     (let common = filter (\<lambda>n. n \<in> set (available_versions l Privkey) \<and>
                                n \<in> set (available_versions l Chain) \<and>
                                n \<in> set (available_versions l Fullchain))
                          (available_versions l Cert)
      in if common = [] then Inl (Foreign ''ValueError'' ''no common version'')
         else Inr (Max (set common)))"

text \<open>
  Modelled from the spec: \<open>storage.RenewableCert.save_successor\<close> is not in
  \<open>main.py\<close>. It writes new numbered artifact files of all four kinds, numbered one
  above every number in use, leaves the stable paths alone and returns the new number.
\<close>

definition save_successor ::
    "lineage \<Rightarrow> nat \<Rightarrow> string \<Rightarrow> string \<Rightarrow> string \<Rightarrow> config \<Rightarrow> nat \<times> lineage" where
  "save_successor l prior_version new_cert new_privkey new_chain cli_config =
     (let target_version = Suc (fold max (map (\<lambda>e. fst (snd e)) (archive l)) 0)
      in (target_version,
          l\<lparr>archive := archive l @
               [(Privkey, target_version, new_privkey), (Cert, target_version, new_cert),
                (Chain, target_version, new_chain),
                (Fullchain, target_version, new_cert @ new_chain)]\<rparr>))"

text \<open>
  Modelled from the spec: \<open>storage.RenewableCert.update_all_links_to\<close> is not in
  \<open>main.py\<close>. It repoints the stable paths of all four kinds to one version.
\<close>

definition update_all_links_to :: "lineage \<Rightarrow> nat \<Rightarrow> lineage" where
  "update_all_links_to l v = l\<lparr>links := [(Cert, v), (Privkey, v), (Chain, v), (Fullchain, v)]\<rparr>"

section \<open>Duplicate detection\<close>

text \<open>
  The loop of \<open>_find_duplicative_certs\<close> over the renewal files, carrying
  \<open>identical_names_cert\<close> and \<open>subset_names_cert\<close>. A file that does not load is
  skipped. The size test compares the candidate's name set with the length of the list
  \<open>subset_names_cert.names()\<close>, as the source does.
\<close>

fun find_duplicative_loop ::
    "string list \<Rightarrow> (string \<times> lineage option) list \<Rightarrow> lineage option \<Rightarrow> lineage option
     \<Rightarrow> lineage option \<times> lineage option" where
  "find_duplicative_loop domains [] identical_names_cert subset_names_cert =
     (identical_names_cert, subset_names_cert)"
| "find_duplicative_loop domains ((renewal_file, None) # rest) identical_names_cert subset_names_cert =
     find_duplicative_loop domains rest identical_names_cert subset_names_cert"
| "find_duplicative_loop domains ((renewal_file, Some candidate_lineage) # rest)
       identical_names_cert subset_names_cert =
     (let candidate_names = set (names candidate_lineage) in
      if candidate_names = set domains then
        find_duplicative_loop domains rest (Some candidate_lineage) subset_names_cert
      else if candidate_names \<subseteq> set domains then
        (case subset_names_cert of
           None \<Rightarrow> find_duplicative_loop domains rest identical_names_cert (Some candidate_lineage)
         | Some s \<Rightarrow>
             if card candidate_names > length (names s) then
               find_duplicative_loop domains rest identical_names_cert (Some candidate_lineage)
             else find_duplicative_loop domains rest identical_names_cert subset_names_cert)
      else find_duplicative_loop domains rest identical_names_cert subset_names_cert)"

definition find_duplicative_certs ::
    "env \<Rightarrow> config \<Rightarrow> string list \<Rightarrow> exn + (lineage option \<times> lineage option)" where
  "find_duplicative_certs en cfg domains =
     (case make_or_verify_dir en of
        Inl e \<Rightarrow> Inl e
      | Inr u \<Rightarrow> Inr (find_duplicative_loop domains (renewal_conf_files en) None None))"

section \<open>Action resolution\<close>

definition cancel_msg :: string where
  "cancel_msg = ''User chose to cancel the operation and may reinvoke the client.''"

definition subset_question :: "env \<Rightarrow> string list \<Rightarrow> lineage \<Rightarrow> string" where
  "subset_question en domains c =
     ''You have an existing certificate that contains a portion of '' @
     ''the domains you requested (ref: '' @ filename c @ '')'' @ linesep en @ linesep en @
     ''It contains these names: '' @ str_join '', '' (names c) @ linesep en @ linesep en @
     ''You requested these names for the new certificate: '' @ str_join '', '' domains @
     ''.'' @ linesep en @ linesep en @
     ''Do you want to expand and replace this existing certificate with the new certificate?''"

definition duplicate_hint :: "env \<Rightarrow> lineage \<Rightarrow> string \<Rightarrow> string list \<Rightarrow> string" where
  "duplicate_hint en c argv0 args =
     ''To obtain a new certificate that contains these names without '' @
     ''replacing your existing certificate for '' @ str_join '', '' (names c) @
     '', you must use the --duplicate option.'' @ linesep en @ linesep en @
     ''For example:'' @ linesep en @ linesep en @
     argv0 @ '' --duplicate '' @ str_join '' '' args"

text \<open>
  \<open>_handle_subset_cert_request\<close>. The prompt is reached only when neither \<open>expand\<close>
  nor \<open>renew_by_default\<close> is set (Python's \<open>or\<close> stops at the first true operand).
\<close>

definition handle_subset_cert_request ::
    "env \<Rightarrow> config \<Rightarrow> string list \<Rightarrow> lineage \<Rightarrow> event list
     \<Rightarrow> (exn + (string \<times> lineage option)) \<times> event list" where
  "handle_subset_cert_request en cfg domains c tr =
     (let question = subset_question en domains c in
      if expand cfg \<or> renew_by_default cfg then (Inr (''renew'', Some c), tr)
      else
        (let tr1 = tr @ [YesNo question ''Expand'' ''Cancel''
                           ''--expand (or in some cases, --duplicate)''] in
         case yesno en question of
           Inl e \<Rightarrow> (Inl e, tr1)
         | Inr True \<Rightarrow> (Inr (''renew'', Some c), tr1)
         | Inr False \<Rightarrow>
             (case argv en of
                [] \<Rightarrow> (Inl (Foreign ''IndexError'' ''list index out of range''), tr1)
              | argv0 # args \<Rightarrow>
                  (Inl (Error cancel_msg),
                   tr1 @ [AddMessage (duplicate_hint en c argv0 args) HIGH_PRIORITY]))))"

definition identical_question :: "env \<Rightarrow> lineage \<Rightarrow> string" where
  "identical_question en c =
     ''You have an existing certificate that contains exactly the same '' @
     ''domains you requested and isn't close to expiry.'' @ linesep en @
     ''(ref: '' @ filename c @ '')'' @ linesep en @ linesep en @
     ''What would you like to do?''"

text \<open>
  The assignment of \<open>keep_opt\<close> in \<open>_handle_identical_cert_request\<close>: \<open>None\<close> is the
  variable left unbound.
\<close>

definition keep_opt :: "config \<Rightarrow> string option" where
  "keep_opt cfg =
     (if verb cfg = ''run'' then Some ''Attempt to reinstall this existing certificate''
      else if verb cfg = ''certonly'' then Some ''Keep the existing certificate for now''
      else None)"

definition handle_identical_cert_request ::
    "env \<Rightarrow> config \<Rightarrow> lineage \<Rightarrow> event list
     \<Rightarrow> (exn + (string \<times> lineage option)) \<times> event list" where
  "handle_identical_cert_request en cfg c tr =
     (if should_renew en cfg c then (Inr (''renew'', Some c), tr)
      else if reinstall cfg then (Inr (''reinstall'', Some c), tr)
      else
        (let question = identical_question en c in
         case keep_opt cfg of
           None \<Rightarrow>
             (Inl (UnboundLocalError
                ''local variable 'keep_opt' referenced before assignment''), tr)
         | Some k \<Rightarrow>
             (let choices = [k, ''Renew & replace the cert (limit ~5 per 7 days)''];
                  tr1 = tr @ [Menu question choices ''OK'' ''Cancel'' 0] in
              case menu en question choices of
                Inl e \<Rightarrow> (Inl e, tr1)
              | Inr response \<Rightarrow>
                  if fst response = CANCEL then (Inl (Error cancel_msg), tr1)
                  else if snd response = 0 then (Inr (''reinstall'', Some c), tr1)
                  else if snd response = 1 then (Inr (''renew'', Some c), tr1)
                  else (Inl (AssertionError ''This is impossible''), tr1))))"

text \<open>
  \<open>_treat_as_renewal\<close>. After the test that not both slots are empty, the
  \<open>if\<close>/\<open>elif\<close> on the identical and the subset slot; the last branch is the fall
  off the end of the function, whose \<open>None\<close> the caller cannot unpack.
\<close>

definition treat_as_renewal ::
    "env \<Rightarrow> config \<Rightarrow> string list \<Rightarrow> event list
     \<Rightarrow> (exn + (string \<times> lineage option)) \<times> event list" where
  "treat_as_renewal en cfg domains tr =
     (if duplicate cfg then (Inr (''newcert'', None), tr)
      else
        case find_duplicative_certs en cfg domains of
          Inl e \<Rightarrow> (Inl e, tr)
        | Inr (ident_names_cert, subset_names_cert) \<Rightarrow>
            if ident_names_cert = None \<and> subset_names_cert = None then
              (Inr (''newcert'', None), tr)
            else
              (case ident_names_cert of
                 Some c \<Rightarrow> handle_identical_cert_request en cfg c tr
               | None \<Rightarrow>
                   (case subset_names_cert of
                      Some c \<Rightarrow> handle_subset_cert_request en cfg domains c tr
                    | None \<Rightarrow> (Inl (TypeError ''NoneType object is not iterable''), tr))))"

section \<open>Obtaining and reporting\<close>

definition new_cert_msg :: "string \<Rightarrow> string \<Rightarrow> string \<Rightarrow> string" where
  "new_cert_msg and_chain path expiry =
     ''Congratulations! Your certificate '' @ and_chain @ '' been saved at '' @ path @
     ''. Your cert will expire on '' @ expiry @ ''. To obtain a new version of the '' @
     ''certificate in the future, simply run Let's Encrypt again.''"

text \<open>
  \<open>_report_new_cert\<close>. \<open>if fullchain_path\<close> holds for a path that is neither \<open>None\<close>
  nor empty.
\<close>

definition report_new_cert ::
    "env \<Rightarrow> string \<Rightarrow> string option \<Rightarrow> event list \<Rightarrow> (exn + unit) \<times> event list" where
  "report_new_cert en cert_path fullchain_path tr =
     (case notAfter en cert_path of
        Inl e \<Rightarrow> (Inl e, tr)
      | Inr expiry \<Rightarrow>
          (case fullchain_path of
             None \<Rightarrow>
               (Inr (), tr @ [AddMessage (new_cert_msg ''has '' cert_path expiry) MEDIUM_PRIORITY])
           | Some p \<Rightarrow>
               if p \<noteq> [] then
                 (Inr (), tr @ [AddMessage (new_cert_msg ''and chain have'' p expiry)
                                  MEDIUM_PRIORITY])
               else
                 (Inr (), tr @ [AddMessage (new_cert_msg ''has '' cert_path expiry)
                                  MEDIUM_PRIORITY])))"

text \<open>
  \<open>_auth_from_domains\<close>, first part: the action and lineage the request resolves to. A
  lineage given by the caller means renewal of that lineage.
\<close>

definition auth_resolve ::
    "env \<Rightarrow> config \<Rightarrow> string list \<Rightarrow> lineage option \<Rightarrow> event list
     \<Rightarrow> (exn + (string \<times> lineage option)) \<times> event list" where
  "auth_resolve en cfg domains lin tr =
     (case lin of
        None \<Rightarrow> treat_as_renewal en cfg domains tr
      | Some l \<Rightarrow> (Inr (''renew'', Some l), tr))"

text \<open>
  The \<open>renew\<close> branch of \<open>_auth_from_domains\<close>: the guard, the protocol client, and
  unless this is a dry run \<open>save_successor\<close> at the latest common version followed by
  \<open>update_all_links_to\<close> at the latest common version read again. The value
  \<open>save_successor\<close> returns is dropped, as in the source.
\<close>

definition auth_renew ::
    "env \<Rightarrow> config \<Rightarrow> string list \<Rightarrow> lineage option \<Rightarrow> event list
     \<Rightarrow> (exn + lineage option) \<times> event list" where
  "auth_renew en cfg domains lin tr =
     (case lin of
        None \<Rightarrow> (Inl (AttributeError ''configuration''), tr)
      | Some l \<Rightarrow>
          (case avoid_invalidating_lineage (STAGING_URI en) cfg l (original_server l) of
             Inl e \<Rightarrow> (Inl e, tr)
           | Inr u \<Rightarrow>
               (let tr1 = tr @ [ObtainCertificate domains] in
                case obtain_certificate en domains of
                  Inl e \<Rightarrow> (Inl e, tr1)
                | Inr (new_cert, new_chain, new_key) \<Rightarrow>
                    if dry_run cfg then (Inr (Some l), tr1)
                    else
                      (case latest_common_version l of
                         Inl e \<Rightarrow> (Inl e, tr1)
                       | Inr prior \<Rightarrow>
                           (let l1 = snd (save_successor l prior new_cert new_key new_chain cfg);
                                tr2 = tr1 @ [SaveSuccessor prior new_cert new_key new_chain cfg] in
                            case latest_common_version l1 of
                              Inl e \<Rightarrow> (Inl e, tr2)
                            | Inr v \<Rightarrow>
                                (Inr (Some (update_all_links_to l1 v)),
                                 tr2 @ [UpdateAllLinksTo v]))))))"

text \<open>The \<open>newcert\<close> branch of \<open>_auth_from_domains\<close>.\<close>

definition auth_newcert ::
    "env \<Rightarrow> string list \<Rightarrow> event list \<Rightarrow> (exn + lineage option) \<times> event list" where
  "auth_newcert en domains tr =
     (let tr1 = tr @ [ObtainAndEnrollCertificate domains] in
      case obtain_and_enroll_certificate en domains of
        Inl e \<Rightarrow> (Inl e, tr1)
      | Inr EnrolledFalse \<Rightarrow> (Inl (Error ''Certificate could not be obtained''), tr1)
      | Inr EnrolledNone \<Rightarrow> (Inr None, tr1)
      | Inr (Enrolled l) \<Rightarrow> (Inr (Some l), tr1))"

text \<open>
  \<open>_auth_from_domains\<close>, second part: what is done for the resolved action, the report
  of a new certificate, and the returned pair.
\<close>

definition auth_execute ::
    "env \<Rightarrow> config \<Rightarrow> string list \<Rightarrow> string \<Rightarrow> lineage option \<Rightarrow> event list
     \<Rightarrow> (exn + (lineage option \<times> string)) \<times> event list" where
  "auth_execute en cfg domains action lin tr =
     (if action = ''reinstall'' then (Inr (lin, ''reinstall''), tr)
      else
        (case (if action = ''renew'' then auth_renew en cfg domains lin tr
               else if action = ''newcert'' then auth_newcert en domains tr
               else (Inr lin, tr)) of
           (Inl e, tr1) \<Rightarrow> (Inl e, tr1)
         | (Inr lin1, tr1) \<Rightarrow>
             if \<not> dry_run cfg \<and> \<not> verb cfg = ''renew'' then
               (case lin1 of
                  None \<Rightarrow> (Inl (AttributeError ''cert''), tr1)
                | Some l \<Rightarrow>
                    (case report_new_cert en (cert l) (fullchain l) tr1 of
                       (Inl e, tr2) \<Rightarrow> (Inl e, tr2)
                     | (Inr u, tr2) \<Rightarrow> (Inr (lin1, action), tr2)))
             else (Inr (lin1, action), tr1)))"

definition auth_from_domains ::
    "env \<Rightarrow> config \<Rightarrow> string list \<Rightarrow> lineage option \<Rightarrow> event list
     \<Rightarrow> (exn + (lineage option \<times> string)) \<times> event list" where
  "auth_from_domains en cfg domains lin tr =
     (case auth_resolve en cfg domains lin tr of
        (Inl e, tr1) \<Rightarrow> (Inl e, tr1)
      | (Inr (action, lin1), tr1) \<Rightarrow> auth_execute en cfg domains action lin1 tr1)"

section \<open>Account resolution\<close>

definition tos_msg :: "config \<Rightarrow> string \<Rightarrow> string" where
  "tos_msg cfg terms_of_service =
     ''Please read the Terms of Service at '' @ terms_of_service @ ''. You '' @
     ''must agree in order to register with the ACME server at '' @ server cfg"

text \<open>\<open>_tos_cb\<close>, the callback handed to \<open>client.register\<close>.\<close>

definition tos_cb :: "env \<Rightarrow> config \<Rightarrow> string \<Rightarrow> exn + bool" where
  "tos_cb en cfg terms_of_service =
     (if tos cfg then Inr True else yesno en (tos_msg cfg terms_of_service))"

text \<open>
  The two \<open>except\<close> clauses around \<open>client.register\<close>, in the source's order: a
  \<open>MissingCommandlineFlag\<close> is raised again as it is, any other \<open>errors.Error\<close> is
  replaced, and an exception of another class matches neither clause and goes through.
\<close>

fun register_failure :: "exn \<Rightarrow> exn" where
  "register_failure (MissingCommandlineFlag m) = MissingCommandlineFlag m"
| "register_failure e =
     (if is_errors_Error e then Error ''Unable to register an account with ACME server''
      else e)"

text \<open>
  \<open>_determine_account\<close>. The result carries the configuration with \<open>account\<close> (and,
  after a prompt, \<open>email\<close>) written back.
\<close>

definition determine_account ::
    "env \<Rightarrow> config \<Rightarrow> exn + ((acct \<times> acme option) \<times> config)" where
  "determine_account en cfg =
     (case account cfg of
        Some a \<Rightarrow>
          (case load en a of
             Inl e \<Rightarrow> Inl e
           | Inr acc \<Rightarrow> Inr ((acc, None), cfg\<lparr>account := Some (acct_id acc)\<rparr>))
      | None \<Rightarrow>
          (case find_all en of
             [] \<Rightarrow>
               (case (if email cfg = None \<and> \<not> register_unsafely_without_email cfg then
                        (case get_email en of
                           Inl e \<Rightarrow> Inl e
                         | Inr m \<Rightarrow> Inr (cfg\<lparr>email := Some m\<rparr>))
                      else Inr cfg) of
                  Inl e \<Rightarrow> Inl e
                | Inr cfg1 \<Rightarrow>
                    (case register en cfg1 (tos_cb en cfg1) of
                       Inl e \<Rightarrow> Inl (register_failure e)
                     | Inr (acc, ac) \<Rightarrow>
                         Inr ((acc, Some ac), cfg1\<lparr>account := Some (acct_id acc)\<rparr>)))
           | [acc] \<Rightarrow> Inr ((acc, None), cfg\<lparr>account := Some (acct_id acc)\<rparr>)
           | accounts \<Rightarrow>
               (case choose_account en accounts of
                  None \<Rightarrow> Inl (AttributeError ''id'')
                | Some acc \<Rightarrow> Inr ((acc, None), cfg\<lparr>account := Some (acct_id acc)\<rparr>))))"

section \<open>Reading the trace\<close>

text \<open>
  The calls that persist a renewal (\<open>save_successor\<close>, \<open>update_all_links_to\<close>), the
  calls on the reporter, and the path the new-certificate report names: the full chain
  path when there is one, the certificate path otherwise.
\<close>

fun is_persist :: "event \<Rightarrow> bool" where
  "is_persist (SaveSuccessor prior c k ch cfg) = True"
| "is_persist (UpdateAllLinksTo v) = True"
| "is_persist e = False"

fun is_add_message :: "event \<Rightarrow> bool" where
  "is_add_message (AddMessage m p) = True"
| "is_add_message e = False"

definition reported_path :: "lineage \<Rightarrow> string" where
  "reported_path l =
     (case fullchain l of None \<Rightarrow> cert l | Some p \<Rightarrow> if p \<noteq> [] then p else cert l)"

section \<open>The matcher's contract\<close>

text \<open>
  The lineages that load, in enumeration order, and the two kinds of candidate the
  specification names: a lineage whose name set equals the requested set, and one whose
  name set lies inside it without being equal.
\<close>

definition readable :: "(string \<times> lineage option) list \<Rightarrow> lineage list" where
  "readable files = List.map_filter snd files"

definition identical_lineages :: "string list \<Rightarrow> lineage list \<Rightarrow> lineage list" where
  "identical_lineages domains ls = filter (\<lambda>c. set (names c) = set domains) ls"

definition subset_candidates :: "string list \<Rightarrow> lineage list \<Rightarrow> lineage list" where
  "subset_candidates domains ls =
     filter (\<lambda>c. set (names c) \<subseteq> set domains \<and> set (names c) \<noteq> set domains) ls"

definition name_count :: "lineage \<Rightarrow> nat" where
  "name_count c = card (set (names c))"

text \<open>
  The specification's choice among subset candidates: the first, in enumeration order,
  of those with the largest name count.
\<close>

definition spec_subset_winner :: "lineage list \<Rightarrow> lineage option" where
  "spec_subset_winner cands =
     (if cands = [] then None
      else find (\<lambda>c. name_count c = Max (set (map name_count cands))) cands)"

section \<open>Concrete inputs\<close>

text \<open>Inputs at which the theorems below are instantiated.\<close>

definition ex_staging_uri :: string where
  "ex_staging_uri = ''https://acme-staging.api.letsencrypt.org/directory''"

definition ex_production_uri :: string where
  "ex_production_uri = ''https://acme-v01.api.letsencrypt.org/directory''"

definition ex_config :: config where
  "ex_config =
     \<lparr>server = ex_production_uri, break_my_certs = False, dry_run = False,
      verb = ''certonly'', duplicate = False, expand = False, renew_by_default = False,
      reinstall = False, account = None, email = Some ''admin@a.com'',
      register_unsafely_without_email = False, tos = True\<rparr>"

definition ex_lineage :: "string \<Rightarrow> string list \<Rightarrow> lineage" where
  "ex_lineage name ns =
     \<lparr>filename = ''renewal/'' @ name @ ''.conf'', names = ns,
      cert = ''live/'' @ name @ ''/cert.pem'',
      fullchain = Some (''live/'' @ name @ ''/fullchain.pem''),
      original_server = ex_production_uri,
      issuer_repr = ''<X509Name object '/C=US/O=Let's Encrypt/CN=Let's Encrypt Authority X1'>'',
      archive = [(Cert, 1, ''cert1''), (Privkey, 1, ''key1''), (Chain, 1, ''chain1''),
                 (Fullchain, 1, ''cert1chain1'')],
      links = [(Cert, 1), (Privkey, 1), (Chain, 1), (Fullchain, 1)]\<rparr>"

definition ex_env :: "(string \<times> lineage option) list \<Rightarrow> env" where
  "ex_env files =
     \<lparr>STAGING_URI = ex_staging_uri, linesep = [CHR 0x0A],
      argv = [''letsencrypt'', ''certonly''],
      should_renew = (\<lambda>cfg l. renew_by_default cfg),
      menu = (\<lambda>q cs. Inr (OK, 1)), yesno = (\<lambda>q. Inr True),
      make_or_verify_dir = Inr (), renewal_conf_files = files,
      obtain_certificate = (\<lambda>ds. Inr (''cert2'', ''chain2'', ''key2'')),
      obtain_and_enroll_certificate = (\<lambda>ds. Inr (Enrolled (ex_lineage ''new'' ds))),
      notAfter = (\<lambda>p. Inr ''2016-05-01''),
      load = (\<lambda>a. Inr \<lparr>acct_id = a\<rparr>), find_all = [], choose_account = (\<lambda>as. None),
      get_email = Inr ''admin@a.com'',
      register = (\<lambda>cfg cb. Inl (Foreign ''acme.messages.Error'' ''urn:acme:error:malformed''))\<rparr>"

definition ex_files :: "(string \<times> lineage option) list" where
  "ex_files =
     [(''renewal/broken.conf'', None),
      (''renewal/a.conf'', Some (ex_lineage ''a'' [''a.com''])),
      (''renewal/ab.conf'', Some (ex_lineage ''ab'' [''a.com'', ''b.com'']))]"

definition ex_files_abc :: "(string \<times> lineage option) list" where
  "ex_files_abc =
     [(''renewal/abc.conf'', Some (ex_lineage ''abc'' [''a.com'', ''b.com'', ''c.com''])),
      (''renewal/a.conf'', Some (ex_lineage ''a'' [''a.com'']))]"

definition ex_files_tie :: "(string \<times> lineage option) list" where
  "ex_files_tie =
     [(''renewal/a.conf'', Some (ex_lineage ''a'' [''a.com''])),
      (''renewal/b.conf'', Some (ex_lineage ''b'' [''b.com'']))]"

definition ex_files_repeated :: "(string \<times> lineage option) list" where
  "ex_files_repeated =
     [(''renewal/aa.conf'', Some (ex_lineage ''aa'' [''a.com'', ''a.com''])),
      (''renewal/ab.conf'', Some (ex_lineage ''ab'' [''a.com'', ''b.com'']))]"

section \<open>Properties of the staging safety guard\<close>

lemma startswith_iff: "startswith hay needle \<longleftrightarrow> (\<exists>ss. hay = needle @ ss)"
  by (induction hay needle rule: startswith.induct) auto

lemma contains_iff: "contains hay needle \<longleftrightarrow> (\<exists>ps ss. hay = ps @ needle @ ss)"
proof (induction hay)
  case Nil
  then show ?case by auto
next
  case (Cons h hs)
  show ?case
  proof
    assume "contains (h # hs) needle"
    then consider "startswith (h # hs) needle" | "contains hs needle" by auto
    then show "\<exists>ps ss. h # hs = ps @ needle @ ss"
    proof cases
      case 1
      then obtain ss where "h # hs = needle @ ss" by (auto simp: startswith_iff)
      then have "h # hs = [] @ needle @ ss" by simp
      then show ?thesis by blast
    next
      case 2
      then obtain ps ss where "hs = ps @ needle @ ss" using Cons.IH by auto
      then have "h # hs = (h # ps) @ needle @ ss" by simp
      then show ?thesis by blast
    qed
  next
    assume "\<exists>ps ss. h # hs = ps @ needle @ ss"
    then obtain ps ss where eq: "h # hs = ps @ needle @ ss" by auto
    show "contains (h # hs) needle"
    proof (cases ps)
      case Nil
      then have "startswith (h # hs) needle" using eq by (auto simp: startswith_iff)
      then show ?thesis by simp
    next
      case (Cons p ps')
      then have "hs = ps' @ needle @ ss" using eq by simp
      then have "contains hs needle" using Cons.IH by blast
      then show ?thesis by simp
    qed
  qed
qed

lemma guard_cases: "avoid_invalidating_lineage S cfg l orig =
   (if is_staging S (server cfg) \<and> (\<not> is_staging S orig \<or> now_valid l) \<and> \<not> break_my_certs cfg
    then Inl (Error (invalidating_msg l)) else Inr ())"
  unfolding avoid_invalidating_lineage_def by (simp only: split: if_splits) simp

lemma ex_not_staging: "\<not> is_staging ex_staging_uri ex_production_uri"
  by code_simp

lemma ex_staging: "is_staging ex_staging_uri ex_staging_uri"
  by (simp add: is_staging_def)

lemma ex_real_issuer: "now_valid (ex_lineage n ns)"
  by code_simp

lemma ex_fake_issuer:
  "\<not> now_valid ((ex_lineage n ns)
        \<lparr>issuer_repr := ''<X509Name object '/CN=Fake LE Intermediate X1'>''\<rparr>)"
  by code_simp

text \<open>
  C1. The guard raises the blocking error exactly when the target server is staging, and
  the original server is not staging or the installed certificate's issuer text has no
  "fake" marker, and break_my_certs is unset. In particular staging over production
  without the flag fails whatever the certificate, with the flag it is allowed, and a
  production target is always allowed.
\<close>

theorem C1_guard_raises_iff:
  "((\<exists>e. avoid_invalidating_lineage S cfg l orig = Inl e) \<longleftrightarrow>
      is_staging S (server cfg) \<and> (\<not> is_staging S orig \<or> now_valid l) \<and> \<not> break_my_certs cfg)
   \<and> (\<forall>e. avoid_invalidating_lineage S cfg l orig = Inl e \<longrightarrow> e = Error (invalidating_msg l))
   \<and> (is_staging S (server cfg) \<and> \<not> is_staging S orig \<and> \<not> break_my_certs cfg \<longrightarrow>
        avoid_invalidating_lineage S cfg l orig = Inl (Error (invalidating_msg l)))
   \<and> (is_staging S (server cfg) \<and> \<not> is_staging S orig \<and> break_my_certs cfg \<longrightarrow>
        avoid_invalidating_lineage S cfg l orig = Inr ())
   \<and> (\<not> is_staging S (server cfg) \<longrightarrow> avoid_invalidating_lineage S cfg l orig = Inr ())"
  by (intro conjI) (simp_all add: guard_cases)

theorem C1_guard_witness:
  "avoid_invalidating_lineage ex_staging_uri (ex_config\<lparr>server := ex_staging_uri\<rparr>)
     (ex_lineage ''a'' [''a.com'']) ex_production_uri
     = Inl (Error (invalidating_msg (ex_lineage ''a'' [''a.com''])))
   \<and> avoid_invalidating_lineage ex_staging_uri
       (ex_config\<lparr>server := ex_staging_uri, break_my_certs := True\<rparr>)
       (ex_lineage ''a'' [''a.com'']) ex_production_uri = Inr ()
   \<and> avoid_invalidating_lineage ex_staging_uri ex_config
       (ex_lineage ''a'' [''a.com'']) ex_staging_uri = Inr ()
   \<and> avoid_invalidating_lineage ex_staging_uri (ex_config\<lparr>server := ex_staging_uri\<rparr>)
       (ex_lineage ''a'' [''a.com'']) ex_staging_uri
       = Inl (Error (invalidating_msg (ex_lineage ''a'' [''a.com''])))
   \<and> avoid_invalidating_lineage ex_staging_uri (ex_config\<lparr>server := ex_staging_uri\<rparr>)
       ((ex_lineage ''a'' [''a.com''])
          \<lparr>issuer_repr := ''<X509Name object '/CN=Fake LE Intermediate X1'>''\<rparr>)
       ex_staging_uri = Inr ()"
proof -
  let ?a = "ex_lineage ''a'' [''a.com'']"
  let ?fake = "?a\<lparr>issuer_repr := ''<X509Name object '/CN=Fake LE Intermediate X1'>''\<rparr>"
  let ?st = "ex_config\<lparr>server := ex_staging_uri\<rparr>"
  let ?br = "ex_config\<lparr>server := ex_staging_uri, break_my_certs := True\<rparr>"
  have s: "is_staging ex_staging_uri (server ?st)" "is_staging ex_staging_uri (server ?br)"
    by (simp_all add: ex_staging)
  have b: "\<not> break_my_certs ?st" "break_my_certs ?br"
    by (simp_all add: ex_config_def)
  have p: "\<not> is_staging ex_staging_uri (server ex_config)"
    by (simp add: ex_config_def ex_not_staging)
  have w1: "avoid_invalidating_lineage ex_staging_uri ?st ?a ex_production_uri
              = Inl (Error (invalidating_msg ?a))"
    using C1_guard_raises_iff[of ex_staging_uri ?st ?a ex_production_uri] s b ex_not_staging
    by blast
  have w2: "avoid_invalidating_lineage ex_staging_uri ?br ?a ex_production_uri = Inr ()"
    using C1_guard_raises_iff[of ex_staging_uri ?br ?a ex_production_uri] s b ex_not_staging
    by blast
  have w3: "avoid_invalidating_lineage ex_staging_uri ex_config ?a ex_staging_uri = Inr ()"
    using C1_guard_raises_iff[of ex_staging_uri ex_config ?a ex_staging_uri] p
    by blast
  have w4: "avoid_invalidating_lineage ex_staging_uri ?st ?a ex_staging_uri
              = Inl (Error (invalidating_msg ?a))"
    using C1_guard_raises_iff[of ex_staging_uri ?st ?a ex_staging_uri] s b ex_real_issuer
    by blast
  have "\<not> (\<exists>e. avoid_invalidating_lineage ex_staging_uri ?st ?fake ex_staging_uri = Inl e)"
    using C1_guard_raises_iff[of ex_staging_uri ?st ?fake ex_staging_uri] s ex_staging
      ex_fake_issuer
    by blast
  then have w5: "avoid_invalidating_lineage ex_staging_uri ?st ?fake ex_staging_uri = Inr ()"
    by (cases "avoid_invalidating_lineage ex_staging_uri ?st ?fake ex_staging_uri") auto
  show ?thesis using w1 w2 w3 w4 w5 by (intro conjI)
qed

text \<open>
  C2, as stated, fails: a server URI that spells STAGING in upper case contains "staging"
  when case is ignored, and the guard's test does not classify it as staging.
\<close>

theorem C2_uppercase_not_staging:
  "\<not> is_staging ex_staging_uri ''https://ACME-STAGING.example.org/directory''
   \<and> spec_is_staging ex_staging_uri ''https://ACME-STAGING.example.org/directory''"
  by code_simp

text \<open>
  C2, amended. A server URI is classified as staging exactly when it equals the staging
  constant or has the lower-case text "staging" somewhere inside it, compared byte for
  byte.
\<close>

theorem C2_is_staging_case_sensitive:
  "is_staging S srv \<longleftrightarrow> srv = S \<or> (\<exists>ps ss. srv = ps @ ''staging'' @ ss)"
  by (simp add: is_staging_def contains_iff)

theorem C2_is_staging_witness:
  "is_staging ex_staging_uri ''https://staging.example.org/directory''
   \<and> is_staging ex_staging_uri ex_staging_uri"
proof -
  have "''https://staging.example.org/directory'' =
          ''https://'' @ ''staging'' @ ''.example.org/directory''"
    by simp
  then have "is_staging ex_staging_uri ''https://staging.example.org/directory''"
    using C2_is_staging_case_sensitive[of ex_staging_uri
            "''https://staging.example.org/directory''"]
    by blast
  moreover have "is_staging ex_staging_uri ex_staging_uri"
    using C2_is_staging_case_sensitive[of ex_staging_uri ex_staging_uri] by blast
  ultimately show ?thesis by simp
qed

section \<open>Properties of duplicate detection\<close>

lemma readable_Nil: "readable [] = []"
  by (simp add: readable_def map_filter_simps)

lemma readable_None: "readable ((f, None) # rest) = readable rest"
  by (simp add: readable_def map_filter_simps)

lemma readable_Some: "readable ((f, Some c) # rest) = c # readable rest"
  by (simp add: readable_def map_filter_simps)

lemma loop_identical_slot:
  "fst (find_duplicative_loop domains files i s) =
     (if identical_lineages domains (readable files) = [] then i
      else Some (last (identical_lineages domains (readable files))))"
proof (induction domains files i s rule: find_duplicative_loop.induct)
  case (1 domains i s)
  then show ?case by (simp add: readable_Nil identical_lineages_def)
next
  case (2 domains f rest i s)
  then show ?case by (simp add: readable_None)
next
  case (3 domains f c rest i s)
  then show ?case
    by (auto simp: readable_Some identical_lineages_def Let_def split: option.splits)
qed

lemma winner_single: "spec_subset_winner [x] = Some x"
  by (simp add: spec_subset_winner_def)

lemma Max_Cons_map:
  "xs \<noteq> [] \<Longrightarrow> Max (set (map f (x # xs))) = max (f x) (Max (set (map f xs)))"
  by simp

lemma Max_map_ge: "y \<in> set xs \<Longrightarrow> f y \<le> Max (set (map f xs))"
  by simp

lemma winner_replace:
  assumes "name_count x < name_count c"
  shows "spec_subset_winner (x # c # cs) = spec_subset_winner (c # cs)"
proof -
  let ?M = "Max (set (map name_count (c # cs)))"
  have le: "name_count c \<le> ?M" by (rule Max_map_ge) simp
  have "Max (set (map name_count (x # c # cs))) = max (name_count x) ?M"
    by (rule Max_Cons_map) simp
  then have eq: "Max (set (map name_count (x # c # cs))) = ?M" using assms le by linarith
  have ne: "name_count x \<noteq> ?M" using assms le by linarith
  have "spec_subset_winner (x # c # cs) =
          find (\<lambda>a. name_count a = ?M) (x # c # cs)"
    unfolding spec_subset_winner_def eq[symmetric] by simp
  also have "\<dots> = find (\<lambda>a. name_count a = ?M) (c # cs)" using ne by simp
  also have "\<dots> = spec_subset_winner (c # cs)" unfolding spec_subset_winner_def by simp
  finally show ?thesis .
qed

lemma winner_keep:
  assumes "\<not> name_count x < name_count c"
  shows "spec_subset_winner (x # c # cs) = spec_subset_winner (x # cs)"
proof -
  let ?M = "Max (set (map name_count (x # cs)))"
  have le: "name_count x \<le> ?M" by (rule Max_map_ge) simp
  have "Max (set (map name_count (c # x # cs))) = max (name_count c) ?M"
    by (rule Max_Cons_map) simp
  then have m: "Max (set (map name_count (c # x # cs))) = ?M" using assms le by linarith
  have "Max (set (map name_count (x # c # cs))) = Max (set (map name_count (c # x # cs)))"
    by (rule arg_cong[where f = Max]) auto
  then have eq: "Max (set (map name_count (x # c # cs))) = ?M" using m by (simp only:)
  have l: "spec_subset_winner (x # c # cs) = find (\<lambda>a. name_count a = ?M) (x # c # cs)"
    unfolding spec_subset_winner_def eq[symmetric] by simp
  have r: "spec_subset_winner (x # cs) = find (\<lambda>a. name_count a = ?M) (x # cs)"
    unfolding spec_subset_winner_def by simp
  show ?thesis
  proof (cases "name_count x = ?M")
    case True
    then show ?thesis unfolding l r by simp
  next
    case False
    then have "name_count c \<noteq> ?M" using assms le by linarith
    then show ?thesis unfolding l r using False by simp
  qed
qed

lemma loop_subset_slot_Some:
  "distinct (names x) \<Longrightarrow> \<forall>l\<in>set (readable files). distinct (names l) \<Longrightarrow>
   snd (find_duplicative_loop domains files i (Some x)) =
     spec_subset_winner (x # subset_candidates domains (readable files))"
proof (induction files arbitrary: x i)
  case Nil
  then show ?case by (simp add: readable_Nil subset_candidates_def winner_single)
next
  case (Cons a rest)
  obtain f lo where a: "a = (f, lo)" by (cases a)
  show ?case
  proof (cases lo)
    case None
    then show ?thesis using Cons a by (simp add: readable_None)
  next
    case (Some c)
    have dc: "distinct (names c)" using Cons.prems a Some by (simp add: readable_Some)
    have dr: "\<forall>l\<in>set (readable rest). distinct (names l)"
      using Cons.prems a Some by (simp add: readable_Some)
    have cc: "card (set (names c)) = name_count c" by (simp add: name_count_def)
    have lx: "length (names x) = name_count x"
      using Cons.prems(1) by (simp add: name_count_def distinct_card)
    show ?thesis
      using Cons.IH[OF Cons.prems(1) dr] Cons.IH[OF dc dr]
      by (simp add: a Some readable_Some subset_candidates_def Let_def cc lx
            winner_replace winner_keep)
  qed
qed

lemma loop_subset_slot_None:
  "\<forall>l\<in>set (readable files). distinct (names l) \<Longrightarrow>
   snd (find_duplicative_loop domains files i None) =
     spec_subset_winner (subset_candidates domains (readable files))"
proof (induction files arbitrary: i)
  case Nil
  then show ?case by (simp add: readable_Nil subset_candidates_def spec_subset_winner_def)
next
  case (Cons a rest)
  obtain f lo where a: "a = (f, lo)" by (cases a)
  show ?case
  proof (cases lo)
    case None
    then show ?thesis using Cons a by (simp add: readable_None)
  next
    case (Some c)
    have dc: "distinct (names c)" using Cons.prems a Some by (simp add: readable_Some)
    have dr: "\<forall>l\<in>set (readable rest). distinct (names l)"
      using Cons.prems a Some by (simp add: readable_Some)
    show ?thesis
      using Cons.IH[OF dr] loop_subset_slot_Some[OF dc dr]
      by (simp add: a Some readable_Some subset_candidates_def Let_def)
  qed
qed

lemma loop_subset_slot_mem:
  "snd (find_duplicative_loop domains files i s) = Some r \<Longrightarrow>
   s = Some r \<or> r \<in> set (subset_candidates domains (readable files))"
proof (induction files arbitrary: i s)
  case Nil
  then show ?case by simp
next
  case (Cons a rest)
  obtain f lo where a: "a = (f, lo)" by (cases a)
  show ?case
  proof (cases lo)
    case None
    then show ?thesis using Cons a by (simp add: readable_None)
  next
    case (Some c)
    let ?go = "\<lambda>i' s'. snd (find_duplicative_loop domains rest i' s') = Some r"
    have step: "?go (Some c) s \<or> ?go i (Some c) \<or> ?go i s"
      using Cons.prems by (simp add: a Some Let_def split: if_splits option.splits)
    have sub: "?go i (Some c) \<Longrightarrow> s \<noteq> Some r \<Longrightarrow> r \<noteq> c \<Longrightarrow>
               r \<in> set (subset_candidates domains (readable rest))"
      using Cons.IH[of i "Some c"] by auto
    have new: "?go i (Some c) \<and> \<not> ?go i s \<and> \<not> ?go (Some c) s \<Longrightarrow>
               set (names c) \<subseteq> set domains \<and> set (names c) \<noteq> set domains"
      using Cons.prems by (auto simp: a Some Let_def split: if_splits option.splits)
    have rest: "r \<in> set (subset_candidates domains (readable rest)) \<Longrightarrow> ?thesis"
      by (simp add: a Some readable_Some subset_candidates_def)
    show ?thesis
    proof (cases "?go i s \<or> ?go (Some c) s")
      case True
      then have "s = Some r \<or> r \<in> set (subset_candidates domains (readable rest))"
        using Cons.IH[of i s] Cons.IH[of "Some c" s] by blast
      then show ?thesis using rest by blast
    next
      case False
      then have g: "?go i (Some c)" using step by blast
      then have c: "set (names c) \<subseteq> set domains \<and> set (names c) \<noteq> set domains"
        using new False by blast
      show ?thesis
      proof (cases "r = c")
        case True
        then show ?thesis using c by (simp add: a Some readable_Some subset_candidates_def)
      next
        case False
        then have "Some c = Some r \<or> r \<in> set (subset_candidates domains (readable rest))"
          using Cons.IH[of i "Some c"] g by blast
        then show ?thesis using False rest by blast
      qed
    qed
  qed
qed

lemma find_duplicative_certs_ok:
  "make_or_verify_dir en = Inr () \<Longrightarrow>
   find_duplicative_certs en cfg domains =
     Inr (find_duplicative_loop domains (renewal_conf_files en) None None)"
  by (simp add: find_duplicative_certs_def)

lemma identical_slot_Some:
  assumes "l \<in> set (readable files)" "set (names l) = set domains"
  shows "fst (find_duplicative_loop domains files i s) =
           Some (last (identical_lineages domains (readable files)))"
    and "last (identical_lineages domains (readable files)) \<in> set (readable files)"
    and "set (names (last (identical_lineages domains (readable files)))) = set domains"
proof -
  let ?ids = "identical_lineages domains (readable files)"
  have ne: "?ids \<noteq> []"
    using assms by (auto simp: identical_lineages_def filter_empty_conv)
  then have "last ?ids \<in> set ?ids" by simp
  then show "last ?ids \<in> set (readable files)" "set (names (last ?ids)) = set domains"
    by (simp_all add: identical_lineages_def)
  show "fst (find_duplicative_loop domains files i s) = Some (last ?ids)"
    using ne by (simp add: loop_identical_slot)
qed

lemma handle_identical_lineage:
  "handle_identical_cert_request en cfg c tr = (Inr (a, c'), tr') \<Longrightarrow> c' = Some c"
  by (auto simp: handle_identical_cert_request_def Let_def
        split: if_splits option.splits sum.splits)

lemma treat_as_renewal_dispatch:
  assumes "make_or_verify_dir en = Inr ()" "\<not> duplicate cfg"
  shows "treat_as_renewal en cfg domains tr =
          (case fst (find_duplicative_loop domains (renewal_conf_files en) None None) of
             Some c \<Rightarrow> handle_identical_cert_request en cfg c tr
           | None \<Rightarrow>
              (case snd (find_duplicative_loop domains (renewal_conf_files en) None None) of
                 Some c \<Rightarrow> handle_subset_cert_request en cfg domains c tr
               | None \<Rightarrow> (Inr (''newcert'', None), tr)))"
proof -
  obtain i s where p: "find_duplicative_loop domains (renewal_conf_files en) None None = (i, s)"
    by (cases "find_duplicative_loop domains (renewal_conf_files en) None None")
  show ?thesis
    using assms
    by (simp add: treat_as_renewal_def find_duplicative_certs_ok p split: option.splits)
qed

lemma find_split:
  "\<exists>x\<in>set xs. P x \<Longrightarrow>
   \<exists>r pre post. find P xs = Some r \<and> xs = pre @ r # post \<and> P r \<and> (\<forall>c\<in>set pre. \<not> P c)"
proof (induction xs)
  case Nil
  then show ?case by simp
next
  case (Cons x xs)
  show ?case
  proof (cases "P x")
    case True
    then have "find P (x # xs) = Some x \<and> x # xs = [] @ x # xs \<and> P x \<and> (\<forall>c\<in>set []. \<not> P c)"
      by simp
    then show ?thesis by blast
  next
    case False
    then have "\<exists>x\<in>set xs. P x" using Cons.prems by auto
    then obtain r pre post where
      h: "find P xs = Some r" "xs = pre @ r # post" "P r" "\<forall>c\<in>set pre. \<not> P c"
      using Cons.IH by blast
    have "find P (x # xs) = Some r \<and> x # xs = (x # pre) @ r # post \<and> P r
            \<and> (\<forall>c\<in>set (x # pre). \<not> P c)"
      using h False by simp
    then show ?thesis by blast
  qed
qed

lemma winner_split:
  assumes "cands \<noteq> []"
  shows "\<exists>r pre post. spec_subset_winner cands = Some r \<and> cands = pre @ r # post
           \<and> (\<forall>c\<in>set pre. name_count c < name_count r)
           \<and> (\<forall>c\<in>set post. name_count c \<le> name_count r)"
proof -
  let ?M = "Max (set (map name_count cands))"
  have "?M \<in> set (map name_count cands)" using assms by (intro Max_in) simp_all
  then have "\<exists>x\<in>set cands. name_count x = ?M" by auto
  then obtain r pre post where
    h: "find (\<lambda>c. name_count c = ?M) cands = Some r" "cands = pre @ r # post"
       "name_count r = ?M" "\<forall>c\<in>set pre. name_count c \<noteq> ?M"
    using find_split[of cands "\<lambda>c. name_count c = ?M"] by blast
  have le: "\<forall>c\<in>set cands. name_count c \<le> ?M" by (simp add: Max_map_ge)
  have "\<forall>c\<in>set pre. name_count c \<le> ?M" "\<forall>c\<in>set post. name_count c \<le> ?M"
    using le h(2) by auto
  then have "(\<forall>c\<in>set pre. name_count c < name_count r)
           \<and> (\<forall>c\<in>set post. name_count c \<le> name_count r)"
    using h(3) h(4) by (metis le_neq_implies_less)
  moreover have "spec_subset_winner cands = Some r"
    using assms h(1) by (simp add: spec_subset_winner_def)
  ultimately show ?thesis using h(2) by blast
qed

lemma winner_not_smaller:
  assumes "l1 \<in> set cands" "l2 \<in> set cands" "name_count l1 < name_count l2"
  shows "spec_subset_winner cands \<noteq> Some l1"
proof
  assume w: "spec_subset_winner cands = Some l1"
  have ne: "cands \<noteq> []" using assms(1) by auto
  then have "find (\<lambda>c. name_count c = Max (set (map name_count cands))) cands = Some l1"
    using w by (simp add: spec_subset_winner_def)
  then have "name_count l1 = Max (set (map name_count cands))"
    by (auto simp: find_Some_iff)
  moreover have "name_count l2 \<le> Max (set (map name_count cands))"
    using assms(2) by (simp add: Max_map_ge)
  ultimately show False using assms(3) by simp
qed

section \<open>The claims about duplicate detection\<close>

text \<open>
  C3. With the renewal directory in place and duplicate detection not switched off,
  exactly one branch drives the resolved action: the identical handler when the identical
  slot is filled, else the subset handler when the subset slot is filled, else a new
  certificate. When some readable lineage has exactly the requested name set, the
  identical slot holds the last enumerated lineage with that name set (the lineage itself
  when it is the only one), the request is handled by the identical handler on it, and a
  resolved action never carries a subset candidate, whatever proper subsets exist.
\<close>

theorem C3_identical_takes_priority:
  assumes dir: "make_or_verify_dir en = Inr ()" and nodup: "\<not> duplicate cfg"
  shows
    "(\<exists>i s. find_duplicative_certs en cfg domains = Inr (i, s) \<and>
        treat_as_renewal en cfg domains tr =
          (case i of
             Some c \<Rightarrow> handle_identical_cert_request en cfg c tr
           | None \<Rightarrow>
               (case s of
                  Some c \<Rightarrow> handle_subset_cert_request en cfg domains c tr
                | None \<Rightarrow> (Inr (''newcert'', None), tr))))
     \<and> (\<forall>l\<in>set (readable (renewal_conf_files en)). set (names l) = set domains \<longrightarrow>
          (\<exists>li s. find_duplicative_certs en cfg domains = Inr (Some li, s)
             \<and> li = last (identical_lineages domains (readable (renewal_conf_files en)))
             \<and> li \<in> set (readable (renewal_conf_files en)) \<and> set (names li) = set domains
             \<and> (identical_lineages domains (readable (renewal_conf_files en)) = [l] \<longrightarrow> li = l)
             \<and> treat_as_renewal en cfg domains tr = handle_identical_cert_request en cfg li tr
             \<and> (\<forall>a c tr'. treat_as_renewal en cfg domains tr = (Inr (a, c), tr') \<longrightarrow>
                   c = Some li
                   \<and> c \<notin> Some ` set (subset_candidates domains (readable (renewal_conf_files en))))))"
proof (intro conjI ballI impI)
  let ?p = "find_duplicative_loop domains (renewal_conf_files en) None None"
  have "find_duplicative_certs en cfg domains = Inr (fst ?p, snd ?p)"
    using dir by (simp add: find_duplicative_certs_ok)
  then show "\<exists>i s. find_duplicative_certs en cfg domains = Inr (i, s) \<and>
        treat_as_renewal en cfg domains tr =
          (case i of
             Some c \<Rightarrow> handle_identical_cert_request en cfg c tr
           | None \<Rightarrow>
               (case s of
                  Some c \<Rightarrow> handle_subset_cert_request en cfg domains c tr
                | None \<Rightarrow> (Inr (''newcert'', None), tr)))"
    using treat_as_renewal_dispatch[OF dir nodup] by blast
next
  fix l
  assume l: "l \<in> set (readable (renewal_conf_files en))" "set (names l) = set domains"
  let ?p = "find_duplicative_loop domains (renewal_conf_files en) None None"
  let ?ids = "identical_lineages domains (readable (renewal_conf_files en))"
  let ?li = "last ?ids"
  have f: "fst ?p = Some ?li" and m: "?li \<in> set (readable (renewal_conf_files en))"
    and n: "set (names ?li) = set domains"
    using identical_slot_Some[OF l] by blast+
  have c: "find_duplicative_certs en cfg domains = Inr (Some ?li, snd ?p)"
    using dir f by (simp add: find_duplicative_certs_ok prod_eq_iff)
  have t: "treat_as_renewal en cfg domains tr = handle_identical_cert_request en cfg ?li tr"
    using treat_as_renewal_dispatch[OF dir nodup] f by simp
  have o: "?ids = [l] \<longrightarrow> ?li = l" by simp
  have ns: "Some ?li \<notin> Some ` set (subset_candidates domains (readable (renewal_conf_files en)))"
    using n by (auto simp: subset_candidates_def)
  have r: "\<forall>a c tr'. treat_as_renewal en cfg domains tr = (Inr (a, c), tr') \<longrightarrow>
             c = Some ?li
             \<and> c \<notin> Some ` set (subset_candidates domains (readable (renewal_conf_files en)))"
    using handle_identical_lineage ns unfolding t by blast
  show "\<exists>li s. find_duplicative_certs en cfg domains = Inr (Some li, s)
             \<and> li = last (identical_lineages domains (readable (renewal_conf_files en)))
             \<and> li \<in> set (readable (renewal_conf_files en)) \<and> set (names li) = set domains
             \<and> (identical_lineages domains (readable (renewal_conf_files en)) = [l] \<longrightarrow> li = l)
             \<and> treat_as_renewal en cfg domains tr = handle_identical_cert_request en cfg li tr
             \<and> (\<forall>a c tr'. treat_as_renewal en cfg domains tr = (Inr (a, c), tr') \<longrightarrow>
                   c = Some li
                   \<and> c \<notin> Some ` set (subset_candidates domains (readable (renewal_conf_files en))))"
    using c m n o t r by blast
qed

lemma ex_readable: "readable ex_files = [ex_lineage ''a'' [''a.com''], ex_lineage ''ab'' [''a.com'', ''b.com'']]"
  by (simp add: ex_files_def readable_def map_filter_simps)

lemma ex_identical: "identical_lineages [''b.com'', ''a.com''] (readable ex_files) = [ex_lineage ''ab'' [''a.com'', ''b.com'']]"
  by (simp add: ex_readable identical_lineages_def ex_lineage_def insert_commute)


lemma ex_dir: "make_or_verify_dir (ex_env files) = Inr ()"
  by (simp add: ex_env_def)

lemma ex_files_env: "renewal_conf_files (ex_env files) = files"
  by (simp add: ex_env_def)

lemma ex_nodup: "\<not> duplicate ex_config"
  by (simp add: ex_config_def)

lemma ex_loop_ba:
  "find_duplicative_loop [''b.com'', ''a.com''] ex_files None None =
     (Some (ex_lineage ''ab'' [''a.com'', ''b.com'']), Some (ex_lineage ''a'' [''a.com'']))"
  by (simp add: ex_files_def ex_lineage_def insert_commute)

lemma ex_handle_identical:
  "fst (handle_identical_cert_request (ex_env files) ex_config c []) = Inr (''renew'', Some c)"
  by (simp add: handle_identical_cert_request_def keep_opt_def ex_env_def ex_config_def)

theorem C3_identical_witness:
  "find_duplicative_certs (ex_env ex_files) ex_config [''b.com'', ''a.com''] =
     Inr (Some (ex_lineage ''ab'' [''a.com'', ''b.com'']), Some (ex_lineage ''a'' [''a.com'']))
   \<and> treat_as_renewal (ex_env ex_files) ex_config [''b.com'', ''a.com''] [] =
       handle_identical_cert_request (ex_env ex_files) ex_config
         (ex_lineage ''ab'' [''a.com'', ''b.com'']) []
   \<and> fst (treat_as_renewal (ex_env ex_files) ex_config [''b.com'', ''a.com''] []) =
       Inr (''renew'', Some (ex_lineage ''ab'' [''a.com'', ''b.com'']))"
proof -
  let ?ab = "ex_lineage ''ab'' [''a.com'', ''b.com'']"
  have mem: "?ab \<in> set (readable (renewal_conf_files (ex_env ex_files)))"
    by (simp add: ex_files_env ex_readable)
  have nm: "set (names ?ab) = set [''b.com'', ''a.com'']"
    by (simp add: ex_lineage_def insert_commute)
  have ids: "last (identical_lineages [''b.com'', ''a.com'']
               (readable (renewal_conf_files (ex_env ex_files)))) = ?ab"
    by (simp add: ex_files_env ex_identical)
  have t: "treat_as_renewal (ex_env ex_files) ex_config [''b.com'', ''a.com''] [] =
             handle_identical_cert_request (ex_env ex_files) ex_config ?ab []"
    using C3_identical_takes_priority[OF ex_dir ex_nodup, of ex_files "[''b.com'', ''a.com'']" "[]"]
      mem nm ids
    by metis
  have c: "find_duplicative_certs (ex_env ex_files) ex_config [''b.com'', ''a.com''] =
             Inr (Some ?ab, Some (ex_lineage ''a'' [''a.com'']))"
    by (simp add: find_duplicative_certs_ok[OF ex_dir] ex_files_env ex_loop_ba)
  show ?thesis using t c by (simp add: ex_handle_identical)
qed

text \<open>
  C4, where the code departs from it. A lineage whose certificate repeats a name has a
  names list longer than its name set. With the lineage for a.com, a.com enumerated
  before the lineage for a.com, b.com and the request a.com, b.com, c.com, both are subset
  candidates and the second has the larger name set, yet the subset slot keeps the first:
  the size test compares the second's name-set size, 2, with the length of the first's
  names list, 2. The choice the specification and the comment in the loop describe is the
  second lineage.
\<close>

theorem C4_repeated_name_keeps_smaller:
  "subset_candidates [''a.com'', ''b.com'', ''c.com''] (readable ex_files_repeated) =
     [ex_lineage ''aa'' [''a.com'', ''a.com''], ex_lineage ''ab'' [''a.com'', ''b.com'']]
   \<and> name_count (ex_lineage ''aa'' [''a.com'', ''a.com'']) = 1
   \<and> name_count (ex_lineage ''ab'' [''a.com'', ''b.com'']) = 2
   \<and> find_duplicative_certs (ex_env ex_files_repeated) ex_config
       [''a.com'', ''b.com'', ''c.com''] =
       Inr (None, Some (ex_lineage ''aa'' [''a.com'', ''a.com'']))
   \<and> spec_subset_winner
       (subset_candidates [''a.com'', ''b.com'', ''c.com''] (readable ex_files_repeated)) =
       Some (ex_lineage ''ab'' [''a.com'', ''b.com''])"
  by code_simp

text \<open>
  On lineages that list each of their names once the loop does make the specification's
  choice. With the renewal directory in place and every readable lineage listing each of
  its names once, the subset slot holds the specification's winner among the subset
  candidates: a candidate is never returned while another candidate has more names, the
  one returned has at least as many names as every candidate and strictly more than every
  candidate enumerated before it (first seen wins on ties), with no identical match the
  request is handled by the subset handler on it, and when the candidates are two lineages
  of different name counts the one with more names is returned.
\<close>

lemma subset_slot_largest_first:
  assumes dir: "make_or_verify_dir en = Inr ()"
    and dist: "\<forall>l\<in>set (readable (renewal_conf_files en)). distinct (names l)"
  shows
    "(\<exists>i. find_duplicative_certs en cfg domains =
        Inr (i, spec_subset_winner (subset_candidates domains (readable (renewal_conf_files en)))))
     \<and> (\<forall>l1\<in>set (subset_candidates domains (readable (renewal_conf_files en))).
         \<forall>l2\<in>set (subset_candidates domains (readable (renewal_conf_files en))).
           name_count l1 < name_count l2 \<longrightarrow>
           (\<forall>i. find_duplicative_certs en cfg domains \<noteq> Inr (i, Some l1)))
     \<and> (subset_candidates domains (readable (renewal_conf_files en)) \<noteq> [] \<longrightarrow>
          (\<exists>i r pre post. find_duplicative_certs en cfg domains = Inr (i, Some r)
             \<and> subset_candidates domains (readable (renewal_conf_files en)) = pre @ r # post
             \<and> (\<forall>c\<in>set pre. name_count c < name_count r)
             \<and> (\<forall>c\<in>set post. name_count c \<le> name_count r)))
     \<and> (\<not> duplicate cfg \<and> identical_lineages domains (readable (renewal_conf_files en)) = [] \<longrightarrow>
          (\<forall>r. spec_subset_winner (subset_candidates domains (readable (renewal_conf_files en)))
                 = Some r \<longrightarrow>
               treat_as_renewal en cfg domains tr =
                 handle_subset_cert_request en cfg domains r tr))
     \<and> (\<forall>l1 l2. set (subset_candidates domains (readable (renewal_conf_files en))) = {l1, l2}
            \<and> name_count l1 < name_count l2 \<longrightarrow>
          (\<exists>i. find_duplicative_certs en cfg domains = Inr (i, Some l2)))"
proof -
  let ?p = "find_duplicative_loop domains (renewal_conf_files en) None None"
  let ?cands = "subset_candidates domains (readable (renewal_conf_files en))"
  have s: "snd ?p = spec_subset_winner ?cands"
    using dist by (rule loop_subset_slot_None)
  have c: "find_duplicative_certs en cfg domains = Inr (fst ?p, spec_subset_winner ?cands)"
    using dir s by (simp add: find_duplicative_certs_ok prod_eq_iff)
  have one: "\<exists>i. find_duplicative_certs en cfg domains = Inr (i, spec_subset_winner ?cands)"
    using c by blast
  have two: "\<forall>l1\<in>set ?cands. \<forall>l2\<in>set ?cands. name_count l1 < name_count l2 \<longrightarrow>
               (\<forall>i. find_duplicative_certs en cfg domains \<noteq> Inr (i, Some l1))"
    using c winner_not_smaller by fastforce
  have three: "?cands \<noteq> [] \<longrightarrow>
          (\<exists>i r pre post. find_duplicative_certs en cfg domains = Inr (i, Some r)
             \<and> ?cands = pre @ r # post
             \<and> (\<forall>c\<in>set pre. name_count c < name_count r)
             \<and> (\<forall>c\<in>set post. name_count c \<le> name_count r))"
  proof
    assume "?cands \<noteq> []"
    then obtain r pre post where
      "spec_subset_winner ?cands = Some r" "?cands = pre @ r # post"
      "\<forall>c\<in>set pre. name_count c < name_count r" "\<forall>c\<in>set post. name_count c \<le> name_count r"
      using winner_split by blast
    then show "\<exists>i r pre post. find_duplicative_certs en cfg domains = Inr (i, Some r)
             \<and> ?cands = pre @ r # post
             \<and> (\<forall>c\<in>set pre. name_count c < name_count r)
             \<and> (\<forall>c\<in>set post. name_count c \<le> name_count r)"
      using c by metis
  qed
  have four: "\<not> duplicate cfg \<and> identical_lineages domains (readable (renewal_conf_files en)) = [] \<longrightarrow>
          (\<forall>r. spec_subset_winner ?cands = Some r \<longrightarrow>
               treat_as_renewal en cfg domains tr =
                 handle_subset_cert_request en cfg domains r tr)"
  proof (intro impI allI)
    fix r
    assume a: "\<not> duplicate cfg \<and> identical_lineages domains (readable (renewal_conf_files en)) = []"
      and w: "spec_subset_winner ?cands = Some r"
    have "fst ?p = None" using a by (simp add: loop_identical_slot)
    then show "treat_as_renewal en cfg domains tr = handle_subset_cert_request en cfg domains r tr"
      using treat_as_renewal_dispatch[OF dir, of cfg domains tr] a s w by simp
  qed
  have five: "\<forall>l1 l2. set ?cands = {l1, l2} \<and> name_count l1 < name_count l2 \<longrightarrow>
          (\<exists>i. find_duplicative_certs en cfg domains = Inr (i, Some l2))"
  proof (intro allI impI)
    fix l1 l2
    assume a: "set ?cands = {l1, l2} \<and> name_count l1 < name_count l2"
    then have ne: "?cands \<noteq> []" by auto
    then obtain r pre post where
      r: "spec_subset_winner ?cands = Some r" "?cands = pre @ r # post"
      using winner_split by blast
    have "r \<in> set ?cands" by (subst r(2)) simp
    then have "r = l1 \<or> r = l2" using a by simp
    moreover have "spec_subset_winner ?cands \<noteq> Some l1"
      using a by (intro winner_not_smaller[of l1 _ l2]) simp_all
    ultimately have "spec_subset_winner ?cands = Some l2" using r(1) by auto
    then show "\<exists>i. find_duplicative_certs en cfg domains = Inr (i, Some l2)"
      using c by auto
  qed
  show ?thesis using one two three four five by (intro conjI)
qed

lemma ex_distinct: "\<forall>l\<in>set (readable (renewal_conf_files (ex_env ex_files))). distinct (names l)"
  by (simp add: ex_files_env ex_readable ex_lineage_def)

lemma ex_winner_abc:
  "spec_subset_winner (subset_candidates [''a.com'', ''b.com'', ''c.com'']
     (readable (renewal_conf_files (ex_env ex_files)))) = Some (ex_lineage ''ab'' [''a.com'', ''b.com''])"
  by code_simp

lemma ex_handle_subset:
  "fst (handle_subset_cert_request (ex_env files) ex_config ds c []) = Inr (''renew'', Some c)"
  by (simp add: handle_subset_cert_request_def ex_env_def ex_config_def)


lemma ex_distinct_tie:
  "\<forall>l\<in>set (readable (renewal_conf_files (ex_env ex_files_tie))). distinct (names l)"
  by code_simp

lemma ex_winner_tie:
  "spec_subset_winner (subset_candidates [''a.com'', ''b.com'', ''c.com'']
     (readable (renewal_conf_files (ex_env ex_files_tie)))) = Some (ex_lineage ''a'' [''a.com''])"
  by code_simp

lemma subset_slot_largest_first_example:
  "find_duplicative_certs (ex_env ex_files) ex_config [''a.com'', ''b.com'', ''c.com''] =
     Inr (None, Some (ex_lineage ''ab'' [''a.com'', ''b.com'']))
   \<and> fst (treat_as_renewal (ex_env ex_files) ex_config [''a.com'', ''b.com'', ''c.com''] []) =
       Inr (''renew'', Some (ex_lineage ''ab'' [''a.com'', ''b.com'']))
   \<and> (\<exists>i. find_duplicative_certs (ex_env ex_files_tie) ex_config
              [''a.com'', ''b.com'', ''c.com''] = Inr (i, Some (ex_lineage ''a'' [''a.com''])))"
proof -
  let ?d = "[''a.com'', ''b.com'', ''c.com'']"
  let ?ab = "ex_lineage ''ab'' [''a.com'', ''b.com'']"
  note th = subset_slot_largest_first[OF ex_dir ex_distinct, of ex_config ?d "[]"]
  have ids: "identical_lineages ?d (readable (renewal_conf_files (ex_env ex_files))) = []"
    by code_simp
  obtain i where c: "find_duplicative_certs (ex_env ex_files) ex_config ?d = Inr (i, Some ?ab)"
    using th ex_winner_abc by metis
  have "fst (find_duplicative_loop ?d (renewal_conf_files (ex_env ex_files)) None None) = None"
    using ids by (simp add: loop_identical_slot)
  then have i: "i = None"
    using c by (simp add: find_duplicative_certs_ok[OF ex_dir] prod_eq_iff)
  have t: "treat_as_renewal (ex_env ex_files) ex_config ?d [] =
             handle_subset_cert_request (ex_env ex_files) ex_config ?d ?ab []"
    using th ex_nodup ids ex_winner_abc by blast
  have tie: "\<exists>i. find_duplicative_certs (ex_env ex_files_tie) ex_config ?d =
               Inr (i, Some (ex_lineage ''a'' [''a.com'']))"
    using subset_slot_largest_first[OF ex_dir ex_distinct_tie, of ex_config ?d "[]"] ex_winner_tie
    by metis
  show ?thesis using c i t tie by (simp add: ex_handle_subset)
qed

text \<open>
  C5, as stated, fails: the request a.com, b.com is a strict subset of the names of the
  lineage for a.com, b.com, c.com and equals no lineage's name set, yet the lineage for
  a.com alone is a subset match and the resolver goes on to renew it.
\<close>

theorem C5_subset_lineage_still_matches:
  "set [''a.com'', ''b.com''] \<subset> set (names (ex_lineage ''abc'' [''a.com'', ''b.com'', ''c.com'']))
   \<and> readable ex_files_abc =
       [ex_lineage ''abc'' [''a.com'', ''b.com'', ''c.com''], ex_lineage ''a'' [''a.com'']]
   \<and> identical_lineages [''a.com'', ''b.com''] (readable ex_files_abc) = []
   \<and> find_duplicative_certs (ex_env ex_files_abc) ex_config [''a.com'', ''b.com''] =
       Inr (None, Some (ex_lineage ''a'' [''a.com'']))
   \<and> fst (treat_as_renewal (ex_env ex_files_abc) ex_config [''a.com'', ''b.com''] []) =
       Inr (''renew'', Some (ex_lineage ''a'' [''a.com'']))"
  by code_simp

text \<open>
  C5, amended. A lineage whose name set strictly contains the requested set is never the
  identical and never the subset match; when moreover no readable lineage's name set lies
  inside the requested set, the matcher finds nothing and the resolver yields newcert.
\<close>

theorem C5_superset_lineage_is_no_match:
  assumes dir: "make_or_verify_dir en = Inr ()"
    and l: "l \<in> set (readable (renewal_conf_files en))"
    and strict: "set domains \<subset> set (names l)"
  shows
    "(\<exists>i s. find_duplicative_certs en cfg domains = Inr (i, s) \<and> i \<noteq> Some l \<and> s \<noteq> Some l)
     \<and> ((\<forall>c\<in>set (readable (renewal_conf_files en)). \<not> set (names c) \<subseteq> set domains) \<longrightarrow>
          find_duplicative_certs en cfg domains = Inr (None, None)
          \<and> treat_as_renewal en cfg domains tr = (Inr (''newcert'', None), tr)
          \<and> auth_resolve en cfg domains None tr = (Inr (''newcert'', None), tr))"
proof -
  let ?p = "find_duplicative_loop domains (renewal_conf_files en) None None"
  let ?ls = "readable (renewal_conf_files en)"
  have c: "find_duplicative_certs en cfg domains = Inr (fst ?p, snd ?p)"
    using dir by (simp add: find_duplicative_certs_ok)
  have nl: "\<not> set (names l) \<subseteq> set domains" using strict by auto
  have i: "fst ?p \<noteq> Some l"
  proof
    assume a: "fst ?p = Some l"
    then have "identical_lineages domains ?ls \<noteq> []"
      by (auto simp: loop_identical_slot split: if_splits)
    then have "last (identical_lineages domains ?ls) \<in> set (identical_lineages domains ?ls)"
      by simp
    then have "set (names (last (identical_lineages domains ?ls))) = set domains"
      by (simp add: identical_lineages_def)
    moreover have "last (identical_lineages domains ?ls) = l"
      using a by (auto simp: loop_identical_slot split: if_splits)
    ultimately show False using nl by simp
  qed
  have s: "snd ?p \<noteq> Some l"
  proof
    assume "snd ?p = Some l"
    then have "l \<in> set (subset_candidates domains ?ls)"
      using loop_subset_slot_mem by fastforce
    then show False using nl by (simp add: subset_candidates_def)
  qed
  have one: "\<exists>i s. find_duplicative_certs en cfg domains = Inr (i, s) \<and> i \<noteq> Some l \<and> s \<noteq> Some l"
    using c i s by blast
  have two: "(\<forall>c\<in>set ?ls. \<not> set (names c) \<subseteq> set domains) \<longrightarrow>
          find_duplicative_certs en cfg domains = Inr (None, None)
          \<and> treat_as_renewal en cfg domains tr = (Inr (''newcert'', None), tr)
          \<and> auth_resolve en cfg domains None tr = (Inr (''newcert'', None), tr)"
  proof
    assume none: "\<forall>c\<in>set ?ls. \<not> set (names c) \<subseteq> set domains"
    have "identical_lineages domains ?ls = []"
      using none by (auto simp: identical_lineages_def filter_empty_conv)
    then have f: "fst ?p = None" by (simp add: loop_identical_slot)
    have "subset_candidates domains ?ls = []"
      using none by (auto simp: subset_candidates_def filter_empty_conv)
    then have g: "snd ?p = None"
      using loop_subset_slot_mem[of domains "renewal_conf_files en" None None]
      by (cases "snd ?p") auto
    have fd: "find_duplicative_certs en cfg domains = Inr (None, None)"
      using c f g by simp
    have t: "treat_as_renewal en cfg domains tr = (Inr (''newcert'', None), tr)"
      using fd by (simp add: treat_as_renewal_def)
    show "find_duplicative_certs en cfg domains = Inr (None, None)
          \<and> treat_as_renewal en cfg domains tr = (Inr (''newcert'', None), tr)
          \<and> auth_resolve en cfg domains None tr = (Inr (''newcert'', None), tr)"
      using fd t by (simp add: auth_resolve_def)
  qed
  show ?thesis using one two by (intro conjI)
qed

theorem C5_superset_lineage_witness:
  "find_duplicative_certs
     (ex_env [(''renewal/ab.conf'', Some (ex_lineage ''ab'' [''a.com'', ''b.com'']))])
     ex_config [''a.com''] = Inr (None, None)
   \<and> treat_as_renewal
       (ex_env [(''renewal/ab.conf'', Some (ex_lineage ''ab'' [''a.com'', ''b.com'']))])
       ex_config [''a.com''] [] = (Inr (''newcert'', None), [])"
proof -
  let ?f = "[(''renewal/ab.conf'', Some (ex_lineage ''ab'' [''a.com'', ''b.com'']))]"
  have r: "readable (renewal_conf_files (ex_env ?f)) = [ex_lineage ''ab'' [''a.com'', ''b.com'']]"
    by (simp add: ex_files_env readable_Some readable_Nil)
  have l: "ex_lineage ''ab'' [''a.com'', ''b.com''] \<in> set (readable (renewal_conf_files (ex_env ?f)))"
    by (simp add: r)
  have strict: "set [''a.com''] \<subset> set (names (ex_lineage ''ab'' [''a.com'', ''b.com'']))"
    by (auto simp: ex_lineage_def)
  have none: "\<forall>c\<in>set (readable (renewal_conf_files (ex_env ?f))). \<not> set (names c) \<subseteq> set [''a.com'']"
    by code_simp
  show ?thesis
    using C5_superset_lineage_is_no_match[OF ex_dir l strict, of ex_config "[]"] none
    by blast
qed


section \<open>Properties of the lineage store and of obtaining\<close>

lemma fold_max_ge: "a \<le> fold max xs (a::nat)" "n \<in> set xs \<Longrightarrow> n \<le> fold max xs a"
proof (induction xs arbitrary: a)
  case Nil
  { case 1 show ?case by simp }
  { case 2 then show ?case by simp }
next
  case (Cons x xs)
  { case 1
    have "a \<le> max x a" by simp
    also have "\<dots> \<le> fold max xs (max x a)" by (rule Cons.IH(1))
    finally show ?case by simp }
  { case 2
    show ?case
    proof (cases "n = x")
      case True
      have "x \<le> max x a" by simp
      also have "\<dots> \<le> fold max xs (max x a)" by (rule Cons.IH(1))
      finally show ?thesis using True by simp
    next
      case False
      then have "n \<in> set xs" using 2 by simp
      then show ?thesis using Cons.IH(2) by simp
    qed }
qed

lemma available_versions_bound:
  "n \<in> set (available_versions l k) \<Longrightarrow>
   n \<le> fold max (map (\<lambda>e. fst (snd e)) (archive l)) 0"
  by (rule fold_max_ge(2)) (auto simp: available_versions_def)

lemma available_versions_save:
  "available_versions (snd (save_successor l p c ky ch cfg)) k =
     available_versions l k @ [fst (save_successor l p c ky ch cfg)]"
  by (cases k) (simp_all add: save_successor_def available_versions_def Let_def)

lemma latest_common_version_save:
  "latest_common_version (snd (save_successor l p c ky ch cfg)) =
     Inr (fst (save_successor l p c ky ch cfg))"
proof -
  let ?v = "fst (save_successor l p c ky ch cfg)"
  let ?l1 = "snd (save_successor l p c ky ch cfg)"
  let ?common = "filter (\<lambda>n. n \<in> set (available_versions ?l1 Privkey) \<and>
                               n \<in> set (available_versions ?l1 Chain) \<and>
                               n \<in> set (available_versions ?l1 Fullchain))
                   (available_versions ?l1 Cert)"
  have v: "?v = Suc (fold max (map (\<lambda>e. fst (snd e)) (archive l)) 0)"
    by (simp add: save_successor_def Let_def)
  have mem: "?v \<in> set ?common" by (simp add: available_versions_save)
  have le: "\<forall>n\<in>set ?common. n \<le> ?v"
  proof
    fix n assume "n \<in> set ?common"
    then have "n \<in> set (available_versions l Cert) \<or> n = ?v"
      by (auto simp: available_versions_save)
    then show "n \<le> ?v" using available_versions_bound[of n l Cert] v by auto
  qed
  have "Max (set ?common) = ?v"
    using mem le by (intro Max_eqI) auto
  moreover have "?common \<noteq> []" using mem by (metis empty_iff list.set(1))
  ultimately show ?thesis
    unfolding latest_common_version_def Let_def by (simp only: if_False)
qed

lemma report_new_cert_ok:
  assumes "report_new_cert en (cert l) (fullchain l) tr = (Inr u, tr')"
  shows "\<exists>expiry and_chain. notAfter en (cert l) = Inr expiry \<and>
           tr' = tr @ [AddMessage (new_cert_msg and_chain (reported_path l) expiry)
                         MEDIUM_PRIORITY]"
proof (cases "notAfter en (cert l)")
  case (Inl e)
  then show ?thesis using assms by (simp add: report_new_cert_def)
next
  case (Inr expiry)
  show ?thesis
  proof (cases "fullchain l")
    case None
    then have "tr' = tr @ [AddMessage (new_cert_msg ''has '' (reported_path l) expiry)
                             MEDIUM_PRIORITY]"
      using assms Inr by (simp add: report_new_cert_def reported_path_def)
    then show ?thesis using Inr by blast
  next
    case (Some p)
    show ?thesis
    proof (cases "p = []")
      case True
      then have "tr' = tr @ [AddMessage (new_cert_msg ''has '' (reported_path l) expiry)
                               MEDIUM_PRIORITY]"
        using assms Inr Some by (simp add: report_new_cert_def reported_path_def)
      then show ?thesis using Inr by blast
    next
      case False
      then have "tr' = tr @ [AddMessage (new_cert_msg ''and chain have'' (reported_path l) expiry)
                               MEDIUM_PRIORITY]"
        using assms Inr Some by (simp add: report_new_cert_def reported_path_def)
      then show ?thesis using Inr by blast
    qed
  qed
qed

lemma report_new_cert_trace:
  "\<exists>evs. snd (report_new_cert en cp fp tr) = tr @ evs \<and> filter is_persist evs = []"
  by (simp add: report_new_cert_def split: sum.splits option.splits)

lemma auth_renew_dry:
  assumes "dry_run cfg"
  shows "auth_renew en cfg domains (Some l) tr =
     (case avoid_invalidating_lineage (STAGING_URI en) cfg l (original_server l) of
        Inl e \<Rightarrow> (Inl e, tr)
      | Inr u \<Rightarrow>
          (case obtain_certificate en domains of
             Inl e \<Rightarrow> (Inl e, tr @ [ObtainCertificate domains])
           | Inr x \<Rightarrow> (Inr (Some l), tr @ [ObtainCertificate domains])))"
  using assms by (simp add: auth_renew_def Let_def split: sum.splits prod.splits)

lemma auth_renew_saved:
  assumes "\<not> dry_run cfg"
    and "avoid_invalidating_lineage (STAGING_URI en) cfg l (original_server l) = Inr ()"
    and "obtain_certificate en domains = Inr (new_cert, new_chain, new_key)"
    and "latest_common_version l = Inr prior"
  shows "auth_renew en cfg domains (Some l) tr =
     (Inr (Some (update_all_links_to (snd (save_successor l prior new_cert new_key new_chain cfg))
                   (fst (save_successor l prior new_cert new_key new_chain cfg)))),
      tr @ [ObtainCertificate domains, SaveSuccessor prior new_cert new_key new_chain cfg,
            UpdateAllLinksTo (fst (save_successor l prior new_cert new_key new_chain cfg))])"
  using assms by (simp add: auth_renew_def Let_def latest_common_version_save)

lemma auth_renew_no_message:
  "\<exists>evs. snd (auth_renew en cfg domains lin tr) = tr @ evs \<and> filter is_add_message evs = []"
  by (simp add: auth_renew_def Let_def split: sum.splits prod.splits option.splits)

lemma auth_newcert_trace:
  "snd (auth_newcert en domains tr) = tr @ [ObtainAndEnrollCertificate domains]"
  by (simp add: auth_newcert_def Let_def split: sum.splits enrolled.splits)

lemma auth_renew_dry_trace:
  assumes "dry_run cfg"
  shows "\<exists>evs. snd (auth_renew en cfg domains lin tr) = tr @ evs \<and> filter is_persist evs = []"
proof (cases lin)
  case None
  then show ?thesis by (simp add: auth_renew_def)
next
  case (Some l)
  show ?thesis
    unfolding Some auth_renew_dry[OF assms]
    by (simp split: sum.splits)
qed

lemma auth_execute_dry_trace:
  assumes "dry_run cfg"
  shows "\<exists>evs. snd (auth_execute en cfg domains action lin tr) = tr @ evs
           \<and> filter is_persist evs = []"
proof -
  let ?b = "if action = ''renew'' then auth_renew en cfg domains lin tr
            else if action = ''newcert'' then auth_newcert en domains tr
            else (Inr lin, tr)"
  have b: "\<exists>evs. snd ?b = tr @ evs \<and> filter is_persist evs = []"
    using auth_renew_dry_trace[OF assms, of en domains lin tr]
    by (simp add: auth_newcert_trace)
  have "snd (auth_execute en cfg domains action lin tr) = tr
        \<or> snd (auth_execute en cfg domains action lin tr) = snd ?b"
    using assms
    by (cases ?b) (simp add: auth_execute_def split: sum.splits)
  then show ?thesis using b by auto
qed

lemma branch_no_message:
  "\<exists>evs. snd (if action = ''renew'' then auth_renew en cfg domains lin tr
              else if action = ''newcert'' then auth_newcert en domains tr
              else (Inr lin, tr)) = tr @ evs
         \<and> filter is_add_message evs = []"
  using auth_renew_no_message[of en cfg domains lin tr]
  by (simp add: auth_newcert_trace)

lemma ex_guard_break:
  "break_my_certs cfg \<Longrightarrow> avoid_invalidating_lineage S cfg l orig = Inr ()"
  by (simp add: guard_cases)

lemma ex_guard_production:
  "avoid_invalidating_lineage (STAGING_URI (ex_env files)) (ex_config\<lparr>verb := v\<rparr>) l orig = Inr ()"
  by (simp add: guard_cases ex_env_def ex_config_def ex_not_staging)

lemma ex_obtain:
  "obtain_certificate (ex_env files) ds = Inr (''cert2'', ''chain2'', ''key2'')"
  by (simp add: ex_env_def)

lemma ex_lcv: "latest_common_version (ex_lineage n ns) = Inr 1"
  by (simp add: latest_common_version_def available_versions_def ex_lineage_def)

lemma ex_save_version:
  "fst (save_successor (ex_lineage n ns) p c k ch cfg) = 2"
  by (simp add: save_successor_def ex_lineage_def)

lemma ex_not_after: "notAfter (ex_env files) p = Inr ''2016-05-01''"
  by (simp add: ex_env_def)

lemma ex_paths:
  "cert (update_all_links_to (snd (save_successor (ex_lineage ''a'' ns) p c k ch cfg)) v)
     = ''live/a/cert.pem''"
  "reported_path (update_all_links_to (snd (save_successor (ex_lineage ''a'' ns) p c k ch cfg)) v)
     = ''live/a/fullchain.pem''"
  by (simp_all add: reported_path_def update_all_links_to_def save_successor_def ex_lineage_def)


section \<open>The claims about the renewal executor\<close>

text \<open>
  C6. In a dry run the executor adds no save_successor and no update_all_links_to call,
  whatever the action and its outcome. For the renew action on a lineage: a returned
  result is that same lineage, unchanged, with the action "renew"; once the staging guard
  allows, the protocol client is called with the requested domains and is the only call
  made; and when the client succeeds the pair of lineage and action is returned. A
  lineage given by the caller is executed as this renew action.
\<close>

theorem C6_dry_run_renew:
  assumes "dry_run cfg"
  shows
    "(\<exists>evs. snd (auth_execute en cfg domains action lin tr) = tr @ evs
         \<and> filter is_persist evs = [])
     \<and> (\<forall>r. fst (auth_execute en cfg domains ''renew'' (Some l) tr) = Inr r \<longrightarrow>
           r = (Some l, ''renew''))
     \<and> (avoid_invalidating_lineage (STAGING_URI en) cfg l (original_server l) = Inr () \<longrightarrow>
          snd (auth_execute en cfg domains ''renew'' (Some l) tr) = tr @ [ObtainCertificate domains]
          \<and> (\<forall>x. obtain_certificate en domains = Inr x \<longrightarrow>
                auth_execute en cfg domains ''renew'' (Some l) tr =
                  (Inr (Some l, ''renew''), tr @ [ObtainCertificate domains])))
     \<and> auth_from_domains en cfg domains (Some l) tr =
         auth_execute en cfg domains ''renew'' (Some l) tr"
proof -
  have ex: "auth_execute en cfg domains ''renew'' (Some l) tr =
     (case avoid_invalidating_lineage (STAGING_URI en) cfg l (original_server l) of
        Inl e \<Rightarrow> (Inl e, tr)
      | Inr u \<Rightarrow>
          (case obtain_certificate en domains of
             Inl e \<Rightarrow> (Inl e, tr @ [ObtainCertificate domains])
           | Inr x \<Rightarrow> (Inr (Some l, ''renew''), tr @ [ObtainCertificate domains])))"
    using assms by (simp add: auth_execute_def auth_renew_dry split: sum.splits)
  have one: "\<exists>evs. snd (auth_execute en cfg domains action lin tr) = tr @ evs
         \<and> filter is_persist evs = []"
    using assms by (rule auth_execute_dry_trace)
  have two: "\<forall>r. fst (auth_execute en cfg domains ''renew'' (Some l) tr) = Inr r \<longrightarrow>
           r = (Some l, ''renew'')"
    unfolding ex by (simp split: sum.splits)
  have three: "avoid_invalidating_lineage (STAGING_URI en) cfg l (original_server l) = Inr () \<longrightarrow>
          snd (auth_execute en cfg domains ''renew'' (Some l) tr) = tr @ [ObtainCertificate domains]
          \<and> (\<forall>x. obtain_certificate en domains = Inr x \<longrightarrow>
                auth_execute en cfg domains ''renew'' (Some l) tr =
                  (Inr (Some l, ''renew''), tr @ [ObtainCertificate domains]))"
    unfolding ex by (simp split: sum.splits)
  have four: "auth_from_domains en cfg domains (Some l) tr =
         auth_execute en cfg domains ''renew'' (Some l) tr"
    by (simp add: auth_from_domains_def auth_resolve_def)
  show ?thesis using one two three four by (intro conjI)
qed

theorem C6_dry_run_witness:
  "auth_from_domains (ex_env ex_files)
     (ex_config\<lparr>server := ex_staging_uri, break_my_certs := True, dry_run := True\<rparr>)
     [''a.com''] (Some (ex_lineage ''a'' [''a.com''])) [] =
     (Inr (Some (ex_lineage ''a'' [''a.com'']), ''renew''), [ObtainCertificate [''a.com'']])"
proof -
  let ?cfg = "ex_config\<lparr>server := ex_staging_uri, break_my_certs := True, dry_run := True\<rparr>"
  have d: "dry_run ?cfg" by simp
  have g: "avoid_invalidating_lineage (STAGING_URI (ex_env ex_files)) ?cfg
             (ex_lineage ''a'' [''a.com'']) (original_server (ex_lineage ''a'' [''a.com''])) = Inr ()"
    by (rule ex_guard_break) simp
  show ?thesis
    using C6_dry_run_renew[OF d, of "ex_env ex_files" "[''a.com'']" "''renew''"
            "Some (ex_lineage ''a'' [''a.com''])" "[]" "ex_lineage ''a'' [''a.com'']"]
      g ex_obtain[of ex_files "[''a.com'']"]
    by simp
qed

text \<open>
  C7. On a renew that is not a dry run, with the guard allowing, the protocol client
  succeeding and the lineage having a latest common version: after the client call the
  executor calls save_successor with that version and the new certificate, key and chain,
  then update_all_links_to with the version number save_successor returned, makes no
  further persisting call, and a returned result is the lineage so updated. The code
  passes the latest common version read again after the save; in the store it is the
  number save_successor returned.
\<close>

theorem C7_renew_persists:
  assumes "\<not> dry_run cfg"
    and "avoid_invalidating_lineage (STAGING_URI en) cfg l (original_server l) = Inr ()"
    and "obtain_certificate en domains = Inr (new_cert, new_chain, new_key)"
    and "latest_common_version l = Inr prior"
  shows
    "(\<exists>evs. snd (auth_execute en cfg domains ''renew'' (Some l) tr) =
         tr @ [ObtainCertificate domains,
               SaveSuccessor prior new_cert new_key new_chain cfg,
               UpdateAllLinksTo (fst (save_successor l prior new_cert new_key new_chain cfg))]
            @ evs
         \<and> filter is_persist evs = [])
     \<and> (\<forall>r a. fst (auth_execute en cfg domains ''renew'' (Some l) tr) = Inr (r, a) \<longrightarrow>
           a = ''renew''
           \<and> r = Some (update_all_links_to
                        (snd (save_successor l prior new_cert new_key new_chain cfg))
                        (fst (save_successor l prior new_cert new_key new_chain cfg))))
     \<and> latest_common_version (snd (save_successor l prior new_cert new_key new_chain cfg)) =
         Inr (fst (save_successor l prior new_cert new_key new_chain cfg))"
proof -
  let ?l2 = "update_all_links_to (snd (save_successor l prior new_cert new_key new_chain cfg))
               (fst (save_successor l prior new_cert new_key new_chain cfg))"
  let ?tr1 = "tr @ [ObtainCertificate domains,
               SaveSuccessor prior new_cert new_key new_chain cfg,
               UpdateAllLinksTo (fst (save_successor l prior new_cert new_key new_chain cfg))]"
  have r: "auth_renew en cfg domains (Some l) tr = (Inr (Some ?l2), ?tr1)"
    using assms by (rule auth_renew_saved)
  have ex: "auth_execute en cfg domains ''renew'' (Some l) tr =
      (if \<not> verb cfg = ''renew'' then
         (case report_new_cert en (cert ?l2) (fullchain ?l2) ?tr1 of
            (Inl e, tr2) \<Rightarrow> (Inl e, tr2)
          | (Inr u, tr2) \<Rightarrow> (Inr (Some ?l2, ''renew''), tr2))
       else (Inr (Some ?l2, ''renew''), ?tr1))"
    using assms(1) by (simp add: auth_execute_def r)
  obtain evs where evs: "snd (report_new_cert en (cert ?l2) (fullchain ?l2) ?tr1) = ?tr1 @ evs"
      "filter is_persist evs = []"
    using report_new_cert_trace by blast
  have one: "\<exists>evs. snd (auth_execute en cfg domains ''renew'' (Some l) tr) = ?tr1 @ evs
         \<and> filter is_persist evs = []"
  proof (cases "verb cfg = ''renew''")
    case True
    then have "snd (auth_execute en cfg domains ''renew'' (Some l) tr) = ?tr1 @ []"
      unfolding ex by simp
    then show ?thesis by (metis filter.simps(1))
  next
    case False
    then have "snd (auth_execute en cfg domains ''renew'' (Some l) tr) = ?tr1 @ evs"
      unfolding ex using evs(1)
      by (cases "report_new_cert en (cert ?l2) (fullchain ?l2) ?tr1")
         (simp split: sum.splits)
    then show ?thesis using evs(2) by blast
  qed
  have two: "\<forall>r a. fst (auth_execute en cfg domains ''renew'' (Some l) tr) = Inr (r, a) \<longrightarrow>
           a = ''renew'' \<and> r = Some ?l2"
    unfolding ex
    by (cases "report_new_cert en (cert ?l2) (fullchain ?l2) ?tr1")
       (simp split: sum.splits)
  have one': "\<exists>evs. snd (auth_execute en cfg domains ''renew'' (Some l) tr) =
         tr @ [ObtainCertificate domains,
               SaveSuccessor prior new_cert new_key new_chain cfg,
               UpdateAllLinksTo (fst (save_successor l prior new_cert new_key new_chain cfg))]
            @ evs
         \<and> filter is_persist evs = []"
    using one by (simp only: append_assoc)
  have three: "latest_common_version (snd (save_successor l prior new_cert new_key new_chain cfg)) =
         Inr (fst (save_successor l prior new_cert new_key new_chain cfg))"
    by (rule latest_common_version_save)
  show ?thesis using one' two three by (intro conjI)
qed

theorem C7_renew_witness:
  "latest_common_version (ex_lineage ''a'' [''a.com'']) = Inr 1
   \<and> fst (save_successor (ex_lineage ''a'' [''a.com'']) 1 ''cert2'' ''key2'' ''chain2'' ex_config) = 2
   \<and> (\<exists>evs. snd (auth_execute (ex_env ex_files) ex_config [''a.com''] ''renew''
                    (Some (ex_lineage ''a'' [''a.com''])) []) =
         [ObtainCertificate [''a.com''],
          SaveSuccessor 1 ''cert2'' ''key2'' ''chain2'' ex_config,
          UpdateAllLinksTo 2] @ evs
         \<and> filter is_persist evs = [])"
proof -
  let ?a = "ex_lineage ''a'' [''a.com'']"
  have nd: "\<not> dry_run ex_config" by (simp add: ex_config_def)
  have g: "avoid_invalidating_lineage (STAGING_URI (ex_env ex_files)) ex_config ?a
             (original_server ?a) = Inr ()"
    using ex_guard_production[of ex_files "verb ex_config" ?a "original_server ?a"] by simp
  have "\<exists>evs. snd (auth_execute (ex_env ex_files) ex_config [''a.com''] ''renew'' (Some ?a) []) =
         [] @ [ObtainCertificate [''a.com''],
          SaveSuccessor 1 ''cert2'' ''key2'' ''chain2'' ex_config,
          UpdateAllLinksTo (fst (save_successor ?a 1 ''cert2'' ''key2'' ''chain2'' ex_config))] @ evs
         \<and> filter is_persist evs = []"
    using C7_renew_persists[OF nd g ex_obtain[of ex_files "[''a.com'']"] ex_lcv, where tr = "[]"]
    by blast
  then show ?thesis
    using ex_lcv[of "''a''" "[''a.com'']"] by (simp add: ex_save_version)
qed

text \<open>
  C8, as stated, fails: under the verb "renew" a successful renewal that is not a dry run
  saves the successor and updates the links, and no message goes to the reporter.
\<close>

theorem C8_renew_verb_not_reported:
  "\<not> dry_run (ex_config\<lparr>verb := ''renew''\<rparr>)
   \<and> auth_from_domains (ex_env ex_files) (ex_config\<lparr>verb := ''renew''\<rparr>) [''a.com'']
       (Some (ex_lineage ''a'' [''a.com''])) [] =
       (Inr (Some (update_all_links_to
                     (snd (save_successor (ex_lineage ''a'' [''a.com'']) 1 ''cert2'' ''key2''
                             ''chain2'' (ex_config\<lparr>verb := ''renew''\<rparr>))) 2),
             ''renew''),
        [ObtainCertificate [''a.com''],
         SaveSuccessor 1 ''cert2'' ''key2'' ''chain2'' (ex_config\<lparr>verb := ''renew''\<rparr>),
         UpdateAllLinksTo 2])"
proof -
  let ?cfg = "ex_config\<lparr>verb := ''renew''\<rparr>"
  let ?a = "ex_lineage ''a'' [''a.com'']"
  have nd: "\<not> dry_run ?cfg" by (simp add: ex_config_def)
  have r: "auth_renew (ex_env ex_files) ?cfg [''a.com''] (Some ?a) [] =
     (Inr (Some (update_all_links_to
                   (snd (save_successor ?a 1 ''cert2'' ''key2'' ''chain2'' ?cfg))
                   (fst (save_successor ?a 1 ''cert2'' ''key2'' ''chain2'' ?cfg)))),
      [] @ [ObtainCertificate [''a.com''], SaveSuccessor 1 ''cert2'' ''key2'' ''chain2'' ?cfg,
            UpdateAllLinksTo (fst (save_successor ?a 1 ''cert2'' ''key2'' ''chain2'' ?cfg))])"
    using nd ex_guard_production ex_obtain ex_lcv by (rule auth_renew_saved)
  have "auth_from_domains (ex_env ex_files) ?cfg [''a.com''] (Some ?a) [] =
      (Inr (Some (update_all_links_to
                   (snd (save_successor ?a 1 ''cert2'' ''key2'' ''chain2'' ?cfg)) 2), ''renew''),
        [ObtainCertificate [''a.com''], SaveSuccessor 1 ''cert2'' ''key2'' ''chain2'' ?cfg,
         UpdateAllLinksTo 2])"
    using nd by (simp add: auth_from_domains_def auth_resolve_def auth_execute_def r ex_save_version)
  then show ?thesis using nd by (intro conjI)
qed

text \<open>
  C8, amended. When the executor returns successfully from a renew or newcert action that
  is not a dry run and whose verb is not "renew", the last call it made is the reporter's
  message that the new certificate was saved, naming the full chain path when one exists
  and the certificate path otherwise, with the expiry read from the certificate path, and
  it sent the reporter nothing else; in a dry run, under the verb "renew" and after a
  reinstall it sends the reporter nothing.
\<close>

theorem C8_new_cert_reported:
  assumes res: "auth_execute en cfg domains action lin tr = (Inr (lin', a'), tr')"
  shows
    "(\<not> dry_run cfg \<and> verb cfg \<noteq> ''renew'' \<and> (action = ''renew'' \<or> action = ''newcert'') \<longrightarrow>
        (\<exists>l expiry and_chain evs.
           lin' = Some l \<and> notAfter en (cert l) = Inr expiry
           \<and> tr' = tr @ evs @ [AddMessage (new_cert_msg and_chain (reported_path l) expiry)
                                 MEDIUM_PRIORITY]
           \<and> filter is_add_message evs = []))
     \<and> (dry_run cfg \<or> verb cfg = ''renew'' \<or> action = ''reinstall'' \<longrightarrow>
          (\<exists>evs. tr' = tr @ evs \<and> filter is_add_message evs = []))"
proof -
  let ?b = "if action = ''renew'' then auth_renew en cfg domains lin tr
            else if action = ''newcert'' then auth_newcert en domains tr
            else (Inr lin, tr)"
  obtain r1 tr1 where b: "?b = (r1, tr1)" by (cases ?b)
  obtain evs where evs: "tr1 = tr @ evs" "filter is_add_message evs = []"
    using branch_no_message[of action en cfg domains lin tr] b by auto
  have one: "\<not> dry_run cfg \<and> verb cfg \<noteq> ''renew'' \<and> (action = ''renew'' \<or> action = ''newcert'') \<longrightarrow>
        (\<exists>l expiry and_chain evs.
           lin' = Some l \<and> notAfter en (cert l) = Inr expiry
           \<and> tr' = tr @ evs @ [AddMessage (new_cert_msg and_chain (reported_path l) expiry)
                                 MEDIUM_PRIORITY]
           \<and> filter is_add_message evs = [])"
  proof
    assume a: "\<not> dry_run cfg \<and> verb cfg \<noteq> ''renew'' \<and> (action = ''renew'' \<or> action = ''newcert'')"
    then have nr: "action \<noteq> ''reinstall''" by auto
    have ex: "auth_execute en cfg domains action lin tr =
        (case r1 of
           Inl e \<Rightarrow> (Inl e, tr1)
         | Inr lin1 \<Rightarrow>
             (case lin1 of
                None \<Rightarrow> (Inl (AttributeError ''cert''), tr1)
              | Some l \<Rightarrow>
                  (case report_new_cert en (cert l) (fullchain l) tr1 of
                     (Inl e, tr2) \<Rightarrow> (Inl e, tr2)
                   | (Inr u, tr2) \<Rightarrow> (Inr (lin1, action), tr2))))"
      using a nr b by (simp add: auth_execute_def split: sum.splits)
    from res obtain l where l: "r1 = Inr (Some l)" "lin' = Some l"
      unfolding ex by (auto split: sum.splits option.splits prod.splits)
    from res obtain u where rep: "report_new_cert en (cert l) (fullchain l) tr1 = (Inr u, tr')"
      unfolding ex l(1) by (auto split: sum.splits prod.splits)
    obtain expiry and_chain where
      "notAfter en (cert l) = Inr expiry"
      "tr' = tr1 @ [AddMessage (new_cert_msg and_chain (reported_path l) expiry) MEDIUM_PRIORITY]"
      using report_new_cert_ok[OF rep] by blast
    then show "\<exists>l expiry and_chain evs.
           lin' = Some l \<and> notAfter en (cert l) = Inr expiry
           \<and> tr' = tr @ evs @ [AddMessage (new_cert_msg and_chain (reported_path l) expiry)
                                 MEDIUM_PRIORITY]
           \<and> filter is_add_message evs = []"
      using l(2) evs by auto
  qed
  have two: "dry_run cfg \<or> verb cfg = ''renew'' \<or> action = ''reinstall'' \<longrightarrow>
          (\<exists>evs. tr' = tr @ evs \<and> filter is_add_message evs = [])"
  proof
    assume a: "dry_run cfg \<or> verb cfg = ''renew'' \<or> action = ''reinstall''"
    show "\<exists>evs. tr' = tr @ evs \<and> filter is_add_message evs = []"
    proof (cases "action = ''reinstall''")
      case True
      then have "tr' = tr @ []" using res by (simp add: auth_execute_def)
      then show ?thesis by (metis filter.simps(1))
    next
      case False
      then have "auth_execute en cfg domains action lin tr =
          (case r1 of Inl e \<Rightarrow> (Inl e, tr1) | Inr lin1 \<Rightarrow> (Inr (lin1, action), tr1))"
        using a b by (auto simp: auth_execute_def split: sum.splits)
      then have "tr' = tr1" using res by (auto split: sum.splits)
      then show ?thesis using evs by blast
    qed
  qed
  show ?thesis using one two by (intro conjI)
qed

theorem C8_new_cert_witness:
  "(\<exists>and_chain evs.
      snd (auth_execute (ex_env ex_files) ex_config [''a.com''] ''renew''
             (Some (ex_lineage ''a'' [''a.com''])) []) =
        evs @ [AddMessage (new_cert_msg and_chain ''live/a/fullchain.pem'' ''2016-05-01'')
                 MEDIUM_PRIORITY]
      \<and> filter is_add_message evs = [])
   \<and> filter is_add_message
       (snd (auth_execute (ex_env ex_files) ex_config [''a.com''] ''reinstall''
               (Some (ex_lineage ''a'' [''a.com''])) [])) = []"
proof -
  let ?a = "ex_lineage ''a'' [''a.com'']"
  let ?l2 = "update_all_links_to
               (snd (save_successor ?a 1 ''cert2'' ''key2'' ''chain2'' ex_config))
               (fst (save_successor ?a 1 ''cert2'' ''key2'' ''chain2'' ex_config))"
  let ?run = "auth_execute (ex_env ex_files) ex_config [''a.com''] ''renew'' (Some ?a) []"
  have nd: "\<not> dry_run ex_config" and v: "verb ex_config \<noteq> ''renew''"
    by (simp_all add: ex_config_def)
  have g: "avoid_invalidating_lineage (STAGING_URI (ex_env ex_files)) ex_config ?a
             (original_server ?a) = Inr ()"
    using ex_guard_production[of ex_files "verb ex_config" ?a "original_server ?a"] by simp
  have r: "auth_renew (ex_env ex_files) ex_config [''a.com''] (Some ?a) [] =
     (Inr (Some ?l2),
      [] @ [ObtainCertificate [''a.com''], SaveSuccessor 1 ''cert2'' ''key2'' ''chain2'' ex_config,
            UpdateAllLinksTo (fst (save_successor ?a 1 ''cert2'' ''key2'' ''chain2'' ex_config))])"
    using nd g ex_obtain ex_lcv by (rule auth_renew_saved)
  have f: "fst ?run = Inr (Some ?l2, ''renew'')"
    using nd v
    by (simp add: auth_execute_def r report_new_cert_def ex_not_after
          split: option.splits)
  then have res: "?run = (Inr (Some ?l2, ''renew''), snd ?run)"
    by (simp add: prod_eq_iff)
  obtain l expiry and_chain evs where
    h: "Some ?l2 = Some l" "notAfter (ex_env ex_files) (cert l) = Inr expiry"
       "snd ?run = [] @ evs @ [AddMessage (new_cert_msg and_chain (reported_path l) expiry)
                                 MEDIUM_PRIORITY]"
       "filter is_add_message evs = []"
    using C8_new_cert_reported[OF res] nd v by blast
  have "l = ?l2" using h(1) by simp
  then have "reported_path l = ''live/a/fullchain.pem''" "expiry = ''2016-05-01''"
    using h(2) by (simp_all add: ex_paths ex_not_after)
  then have w1: "\<exists>and_chain evs.
      snd ?run = evs @ [AddMessage (new_cert_msg and_chain ''live/a/fullchain.pem'' ''2016-05-01'')
                         MEDIUM_PRIORITY]
      \<and> filter is_add_message evs = []"
    using h(3) h(4) by auto
  let ?re = "auth_execute (ex_env ex_files) ex_config [''a.com''] ''reinstall'' (Some ?a) []"
  have "?re = (Inr (Some ?a, ''reinstall''), snd ?re)"
    by (simp add: auth_execute_def)
  then have "\<exists>evs. snd ?re = [] @ evs \<and> filter is_add_message evs = []"
    using C8_new_cert_reported[of "ex_env ex_files" ex_config "[''a.com'']" "''reinstall''"
            "Some ?a" "[]" "Some ?a" "''reinstall''" "snd ?re"]
    by blast
  then have w2: "filter is_add_message (snd ?re) = []" by auto
  show ?thesis using w1 w2 by (intro conjI)
qed


section \<open>The claim about account registration\<close>

lemma register_failure_cases:
  "(\<forall>m. e = MissingCommandlineFlag m \<longrightarrow> register_failure e = e)"
  "is_errors_Error e \<Longrightarrow> \<forall>m. e \<noteq> MissingCommandlineFlag m \<Longrightarrow>
     register_failure e = Error ''Unable to register an account with ACME server''"
  "\<not> is_errors_Error e \<Longrightarrow> register_failure e = e"
  by (cases e; simp)+

text \<open>
  C9, as stated, fails: with no stored account, a registration failure whose exception
  class lies outside errors.Error (here the protocol library's own error) is neither the
  missing-flag kind nor wrapped; it reaches the caller as it is.
\<close>

theorem C9_foreign_error_not_wrapped:
  "account ex_config = None \<and> find_all (ex_env ex_files) = []
   \<and> register (ex_env ex_files) ex_config (tos_cb (ex_env ex_files) ex_config) =
       Inl (Foreign ''acme.messages.Error'' ''urn:acme:error:malformed'')
   \<and> determine_account (ex_env ex_files) ex_config =
       Inl (Foreign ''acme.messages.Error'' ''urn:acme:error:malformed'')"
  by (simp add: determine_account_def ex_env_def ex_config_def)

text \<open>
  C9, amended. During account resolution with no stored accounts, every registration
  failure reaches the caller as a failure: one of the missing-required-flag kind
  unchanged, any other failure of class errors.Error (or a subclass) replaced by the error
  "Unable to register an account with ACME server", and a failure of any class outside
  errors.Error unchanged.
\<close>

theorem C9_registration_errors:
  assumes "account cfg = None" and "find_all en = []"
    and "if email cfg = None \<and> \<not> register_unsafely_without_email cfg
         then get_email en = Inr m \<and> cfg1 = cfg\<lparr>email := Some m\<rparr> else cfg1 = cfg"
    and "register en cfg1 (tos_cb en cfg1) = Inl e"
  shows
    "(\<exists>e'. determine_account en cfg = Inl e')
     \<and> ((\<exists>msg. e = MissingCommandlineFlag msg) \<longrightarrow> determine_account en cfg = Inl e)
     \<and> (is_errors_Error e \<and> (\<forall>msg. e \<noteq> MissingCommandlineFlag msg) \<longrightarrow>
          determine_account en cfg =
            Inl (Error ''Unable to register an account with ACME server''))
     \<and> (\<not> is_errors_Error e \<longrightarrow> determine_account en cfg = Inl e)"
proof -
  have d: "determine_account en cfg = Inl (register_failure e)"
  proof (cases "email cfg = None \<and> \<not> register_unsafely_without_email cfg")
    case True
    then have "get_email en = Inr m" "cfg1 = cfg\<lparr>email := Some m\<rparr>"
      using assms(3) by simp_all
    then show ?thesis
      using assms(1,2,4) True by (simp add: determine_account_def)
  next
    case False
    then have "cfg1 = cfg" using assms(3) by simp
    then show ?thesis
      using assms(1,2,4) False by (auto simp: determine_account_def)
  qed
  show ?thesis
    unfolding d using register_failure_cases[of e] by blast
qed

theorem C9_registration_witness:
  "determine_account
     ((ex_env ex_files)\<lparr>register := (\<lambda>c cb. Inl (MissingCommandlineFlag ''--agree-tos''))\<rparr>)
     ex_config = Inl (MissingCommandlineFlag ''--agree-tos'')
   \<and> determine_account
       ((ex_env ex_files)\<lparr>register := (\<lambda>c cb. Inl (SubError ''AccountStorageError'' ''disk''))\<rparr>)
       ex_config = Inl (Error ''Unable to register an account with ACME server'')
   \<and> determine_account (ex_env ex_files) ex_config =
       Inl (Foreign ''acme.messages.Error'' ''urn:acme:error:malformed'')"
proof -
  let ?m = "(ex_env ex_files)\<lparr>register := (\<lambda>c cb. Inl (MissingCommandlineFlag ''--agree-tos''))\<rparr>"
  let ?s = "(ex_env ex_files)\<lparr>register := (\<lambda>c cb. Inl (SubError ''AccountStorageError'' ''disk''))\<rparr>"
  have a: "account ex_config = None" by (simp add: ex_config_def)
  have e: "if email ex_config = None \<and> \<not> register_unsafely_without_email ex_config
           then get_email en = Inr m \<and> ex_config = ex_config\<lparr>email := Some m\<rparr>
           else ex_config = ex_config" for en m
    by (simp add: ex_config_def)
  have f: "find_all ?m = []" "find_all ?s = []" "find_all (ex_env ex_files) = []"
    by (simp_all add: ex_env_def)
  have r1: "register ?m ex_config (tos_cb ?m ex_config) = Inl (MissingCommandlineFlag ''--agree-tos'')"
    by simp
  have r2: "register ?s ex_config (tos_cb ?s ex_config) = Inl (SubError ''AccountStorageError'' ''disk'')"
    by simp
  have r3: "register (ex_env ex_files) ex_config (tos_cb (ex_env ex_files) ex_config) =
              Inl (Foreign ''acme.messages.Error'' ''urn:acme:error:malformed'')"
    by (simp add: ex_env_def)
  have w1: "determine_account ?m ex_config = Inl (MissingCommandlineFlag ''--agree-tos'')"
    using C9_registration_errors[OF a f(1) e r1] by blast
  have w2: "determine_account ?s ex_config =
              Inl (Error ''Unable to register an account with ACME server'')"
    using C9_registration_errors[OF a f(2) e r2] by simp
  have w3: "determine_account (ex_env ex_files) ex_config =
              Inl (Foreign ''acme.messages.Error'' ''urn:acme:error:malformed'')"
    using C9_registration_errors[OF a f(3) e r3] by simp
  show ?thesis using w1 w2 w3 by (intro conjI)
qed

section \<open>The claim about the identical-match prompt\<close>

text \<open>
  C10. When renewal is not due and the reinstall flag is unset, the identical-match
  handler reaches the assignment of keep_opt. Under any verb other than "run" and
  "certonly" the variable stays unbound and the handler fails with UnboundLocalError
  before any menu is shown; under those two verbs the menu is shown with the keep option
  first.
\<close>

theorem C10_keep_opt_unbound:
  assumes "\<not> should_renew en cfg c" and "\<not> reinstall cfg"
  shows
    "(verb cfg \<noteq> ''run'' \<and> verb cfg \<noteq> ''certonly'' \<longrightarrow>
        handle_identical_cert_request en cfg c tr =
          (Inl (UnboundLocalError ''local variable 'keep_opt' referenced before assignment''), tr))
     \<and> (verb cfg = ''run'' \<or> verb cfg = ''certonly'' \<longrightarrow>
          (\<exists>k. keep_opt cfg = Some k
             \<and> snd (handle_identical_cert_request en cfg c tr) =
                 tr @ [Menu (identical_question en c)
                         [k, ''Renew & replace the cert (limit ~5 per 7 days)'']
                         ''OK'' ''Cancel'' 0]))"
proof (intro conjI impI)
  assume "verb cfg \<noteq> ''run'' \<and> verb cfg \<noteq> ''certonly''"
  then have "keep_opt cfg = None" by (simp add: keep_opt_def)
  then show "handle_identical_cert_request en cfg c tr =
          (Inl (UnboundLocalError ''local variable 'keep_opt' referenced before assignment''), tr)"
    using assms by (simp add: handle_identical_cert_request_def)
next
  assume "verb cfg = ''run'' \<or> verb cfg = ''certonly''"
  then obtain k where k: "keep_opt cfg = Some k" by (auto simp: keep_opt_def)
  have "snd (handle_identical_cert_request en cfg c tr) =
          tr @ [Menu (identical_question en c)
                  [k, ''Renew & replace the cert (limit ~5 per 7 days)''] ''OK'' ''Cancel'' 0]"
    using assms k
    by (simp add: handle_identical_cert_request_def Let_def split: sum.splits)
  then show "\<exists>k. keep_opt cfg = Some k
             \<and> snd (handle_identical_cert_request en cfg c tr) =
                 tr @ [Menu (identical_question en c)
                         [k, ''Renew & replace the cert (limit ~5 per 7 days)'']
                         ''OK'' ''Cancel'' 0]"
    using k by blast
qed

theorem C10_keep_opt_witness:
  "handle_identical_cert_request (ex_env ex_files) (ex_config\<lparr>verb := ''auth''\<rparr>)
     (ex_lineage ''a'' [''a.com'']) [] =
     (Inl (UnboundLocalError ''local variable 'keep_opt' referenced before assignment''), [])
   \<and> snd (handle_identical_cert_request (ex_env ex_files) ex_config
            (ex_lineage ''a'' [''a.com'']) []) =
       [Menu (identical_question (ex_env ex_files) (ex_lineage ''a'' [''a.com'']))
          [''Keep the existing certificate for now'',
           ''Renew & replace the cert (limit ~5 per 7 days)''] ''OK'' ''Cancel'' 0]"
proof -
  let ?a = "ex_lineage ''a'' [''a.com'']"
  have h1: "\<not> should_renew (ex_env ex_files) (ex_config\<lparr>verb := ''auth''\<rparr>) ?a"
    "\<not> reinstall (ex_config\<lparr>verb := ''auth''\<rparr>)"
    by (simp_all add: ex_env_def ex_config_def)
  have v1: "verb (ex_config\<lparr>verb := ''auth''\<rparr>) \<noteq> ''run'' \<and>
            verb (ex_config\<lparr>verb := ''auth''\<rparr>) \<noteq> ''certonly''"
    by simp
  have h2: "\<not> should_renew (ex_env ex_files) ex_config ?a" "\<not> reinstall ex_config"
    by (simp_all add: ex_env_def ex_config_def)
  have v2: "verb ex_config = ''run'' \<or> verb ex_config = ''certonly''"
    by (simp add: ex_config_def)
  have k: "keep_opt ex_config = Some ''Keep the existing certificate for now''"
    by (simp add: keep_opt_def ex_config_def)
  have a: "handle_identical_cert_request (ex_env ex_files) (ex_config\<lparr>verb := ''auth''\<rparr>) ?a [] =
     (Inl (UnboundLocalError ''local variable 'keep_opt' referenced before assignment''), [])"
    using C10_keep_opt_unbound[OF h1, of "[]"] v1 by blast
  have b: "snd (handle_identical_cert_request (ex_env ex_files) ex_config ?a []) =
       [Menu (identical_question (ex_env ex_files) ?a)
          [''Keep the existing certificate for now'',
           ''Renew & replace the cert (limit ~5 per 7 days)''] ''OK'' ''Cancel'' 0]"
    using C10_keep_opt_unbound[OF h2, of "[]"] v2 k by auto
  show ?thesis using a b by (intro conjI)
qed

end
